theory Spec2Isabelle
  imports Main "HOL-Library.AList"
begin

section \<open>Text and regular expressions\<close>

text \<open>
  Both scripts treat a file as one string (\<open>read_text\<close>, \<open>write_text\<close>) and edit it with
  \<open>re.sub\<close>. A text is a list of characters. The patterns of the two scripts are
  concatenations of literal pieces and of one-or-more repetitions of a character class
  (\<open>\s+\<close>, \<open>[^;]+\<close>), optionally anchored by \<open>^\<close> under \<open>re.MULTILINE\<close>.
\<close>

definition newline :: char where
  "newline = CHR 0x0A"

definition semicolon :: char where
  "semicolon = CHR '';''"

text \<open>The class \<open>\s\<close> of a \<open>str\<close> pattern, on the code points below 256.\<close>

definition whitespace :: "char list" where
  "whitespace = [CHR 0x09, CHR 0x0A, CHR 0x0B, CHR 0x0C, CHR 0x0D, CHR 0x1C, CHR 0x1D,
     CHR 0x1E, CHR 0x1F, CHR 0x20, CHR 0x85, CHR 0xA0]"

definition is_space :: "char \<Rightarrow> bool" where
  "is_space c = (c \<in> set whitespace)"

definition not_semicolon :: "char \<Rightarrow> bool" where
  "not_semicolon c = (c \<noteq> semicolon)"

datatype atom = Lit string | Plus "char \<Rightarrow> bool"

fun starts_with :: "string \<Rightarrow> string \<Rightarrow> bool" where
  "starts_with [] s = True"
| "starts_with (a # l) [] = False"
| "starts_with (a # l) (c # s) = (a = c \<and> starts_with l s)"

fun first_some :: "('a \<Rightarrow> 'b option) \<Rightarrow> 'a list \<Rightarrow> 'b option" where
  "first_some f [] = None"
| "first_some f (x # xs) = (case f x of Some y \<Rightarrow> Some y | None \<Rightarrow> first_some f xs)"

text \<open>
  \<open>match_seq p s\<close> is the length of the match of the pattern \<open>p\<close> at the start of \<open>s\<close>, as
  the backtracking matcher finds it: a repetition is greedy, it first takes the longest
  run of its class and gives characters back one at a time, down to one.
\<close>

fun match_seq :: "atom list \<Rightarrow> string \<Rightarrow> nat option" where
  "match_seq [] s = Some 0"
| "match_seq (Lit l # p) s =
     (if starts_with l s
      then map_option (\<lambda>n. length l + n) (match_seq p (drop (length l) s))
      else None)"
| "match_seq (Plus cls # p) s =
     first_some (\<lambda>k. map_option (\<lambda>n. k + n) (match_seq p (drop k s)))
       (rev [1 ..< Suc (length (takeWhile cls s))])"

text \<open>
  \<open>match_at anchored p bol s\<close>: a pattern that starts with \<open>^\<close> (under \<open>re.MULTILINE\<close>)
  matches only at the start of the text or right after a newline; \<open>bol\<close> says whether the
  current position is such a place.
\<close>

definition match_at :: "bool \<Rightarrow> atom list \<Rightarrow> bool \<Rightarrow> string \<Rightarrow> nat option" where
  "match_at anchored p bol s = (if anchored \<and> \<not> bol then None else match_seq p s)"

text \<open>
  \<open>re.sub(pattern, repl, text)\<close> with no \<open>count\<close>: the text is scanned from left to right,
  every match is replaced by \<open>repl\<close> and the scan goes on behind the match; where nothing
  matches, one character is copied. The replacement is taken literally, which is what
  \<open>re.sub\<close> does with a template that has no backslash.
\<close>

function re_sub :: "bool \<Rightarrow> atom list \<Rightarrow> string \<Rightarrow> bool \<Rightarrow> string \<Rightarrow> string" where
  "re_sub anchored p repl bol [] =
     (case match_at anchored p bol [] of Some n \<Rightarrow> repl | None \<Rightarrow> [])"
| "re_sub anchored p repl bol (c # cs) =
     (case match_at anchored p bol (c # cs) of
        None \<Rightarrow> c # re_sub anchored p repl (c = newline) cs
      | Some n \<Rightarrow>
          if n = 0 then repl @ c # re_sub anchored p repl (c = newline) cs
          else repl @ re_sub anchored p repl ((c # cs) ! (n - 1) = newline) (drop n (c # cs)))"
  by pat_completeness auto
termination
  by (relation "measure (\<lambda>(a, p, r, b, s). length s)") auto

section \<open>The import rewriter (update\_imports.py)\<close>

text \<open>\<open>IMPORT_MAPPINGS\<close>: a dictionary literal, iterated in insertion order.\<close>

definition IMPORT_MAPPINGS :: "(string \<times> string) list" where
  "IMPORT_MAPPINGS = [
    (''com.demo.auth.entity.User'',
     ''com.demo.auth.modules.user.entity.User''),
    (''com.demo.auth.entity.Role'',
     ''com.demo.auth.modules.role.entity.Role''),
    (''com.demo.auth.entity.RoleType'',
     ''com.demo.auth.modules.role.entity.RoleType''),
    (''com.demo.auth.entity.Permission'',
     ''com.demo.auth.modules.permission.entity.Permission''),
    (''com.demo.auth.entity.RolePermission'',
     ''com.demo.auth.modules.permission.entity.RolePermission''),
    (''com.demo.auth.repository.UserRepository'',
     ''com.demo.auth.modules.user.repository.UserRepository''),
    (''com.demo.auth.repository.RoleRepository'',
     ''com.demo.auth.modules.role.repository.RoleRepository''),
    (''com.demo.auth.service.UserService'',
     ''com.demo.auth.modules.user.service.UserService''),
    (''com.demo.auth.service.UserDetailsServiceImpl'',
     ''com.demo.auth.modules.user.service.UserDetailsServiceImpl''),
    (''com.demo.auth.service.UserRegistrationService'',
     ''com.demo.auth.modules.user.service.UserRegistrationService''),
    (''com.demo.auth.service.AuthenticationService'',
     ''com.demo.auth.modules.authentication.service.AuthenticationService''),
    (''com.demo.auth.service.JwtService'',
     ''com.demo.auth.modules.authentication.service.JwtService''),
    (''com.demo.auth.service.StatelessRefreshTokenService'',
     ''com.demo.auth.modules.authentication.service.StatelessRefreshTokenService''),
    (''com.demo.auth.service.RoleService'',
     ''com.demo.auth.modules.role.service.RoleService''),
    (''com.demo.auth.controller.UserController'',
     ''com.demo.auth.modules.user.controller.UserController''),
    (''com.demo.auth.controller.RegistrationController'',
     ''com.demo.auth.modules.user.controller.RegistrationController''),
    (''com.demo.auth.controller.AuthController'',
     ''com.demo.auth.modules.authentication.controller.AuthenticationController''),
    (''com.demo.auth.service.dto.UserInfoDto'',
     ''com.demo.auth.modules.user.dto.response.UserInfoDto''),
    (''com.demo.auth.dto.UserDTO'',
     ''com.demo.auth.modules.user.dto.response.UserDTO''),
    (''com.demo.auth.dto.RegistrationRequestDto'',
     ''com.demo.auth.modules.user.dto.request.RegistrationRequestDto''),
    (''com.demo.auth.dto.RegistrationResponseDto'',
     ''com.demo.auth.modules.user.dto.response.RegistrationResponseDto''),
    (''com.demo.auth.service.dto.RefreshTokenRequestDto'',
     ''com.demo.auth.modules.authentication.dto.request.RefreshTokenRequestDto''),
    (''com.demo.auth.dto.LoginRequestDto'',
     ''com.demo.auth.modules.authentication.dto.request.LoginRequestDto''),
    (''com.demo.auth.dto.AuthenticationRequestDto'',
     ''com.demo.auth.modules.authentication.dto.request.AuthenticationRequestDto''),
    (''com.demo.auth.dto.AuthenticationResponseDto'',
     ''com.demo.auth.modules.authentication.dto.response.AuthenticationResponseDto''),
    (''com.demo.auth.mapper.UserMapper'',
     ''com.demo.auth.modules.user.mapper.UserMapper''),
    (''com.demo.auth.mapper.UserDtoMapper'',
     ''com.demo.auth.modules.user.mapper.UserDtoMapper''),
    (''com.demo.auth.security.custom.CustomJwtConfig'',
     ''com.demo.auth.modules.authentication.security.jwt.custom.CustomJwtConfig''),
    (''com.demo.auth.security.custom.CustomJwtAuthenticationProvider'',
     ''com.demo.auth.modules.authentication.security.jwt.custom.CustomJwtAuthenticationProvider''),
    (''com.demo.auth.security.custom.CustomJwtAuthenticationToken'',
     ''com.demo.auth.modules.authentication.security.jwt.custom.CustomJwtAuthenticationToken''),
    (''com.demo.auth.security.custom.CustomJwtValidationService'',
     ''com.demo.auth.modules.authentication.security.jwt.custom.CustomJwtValidationService''),
    (''com.demo.auth.security.keycloak.KeycloakJwtConfig'',
     ''com.demo.auth.modules.authentication.security.jwt.keycloak.KeycloakJwtConfig''),
    (''com.demo.auth.security.keycloak.KeycloakJwtAuthenticationProvider'',
     ''com.demo.auth.modules.authentication.security.jwt.keycloak.KeycloakJwtAuthenticationProvider''),
    (''com.demo.auth.security.keycloak.KeycloakJwtAuthenticationToken'',
     ''com.demo.auth.modules.authentication.security.jwt.keycloak.KeycloakJwtAuthenticationToken''),
    (''com.demo.auth.security.keycloak.KeycloakJwtAuthenticationConverter'',
     ''com.demo.auth.modules.authentication.security.jwt.keycloak.KeycloakJwtAuthenticationConverter''),
    (''com.demo.auth.security.keycloak.KeycloakTokenValidationService'',
     ''com.demo.auth.modules.authentication.security.jwt.keycloak.KeycloakTokenValidationService''),
    (''com.demo.auth.security.keycloak.KeycloakRoleConverter'',
     ''com.demo.auth.modules.authentication.security.jwt.keycloak.KeycloakRoleConverter''),
    (''com.demo.auth.security.keycloak.KeycloakProperties'',
     ''com.demo.auth.modules.authentication.security.jwt.keycloak.KeycloakProperties''),
    (''com.demo.auth.security.keycloak.KeycloakSecurityAuditLogger'',
     ''com.demo.auth.modules.authentication.security.jwt.keycloak.KeycloakSecurityAuditLogger''),
    (''com.demo.auth.security.common.AbstractJwtAuthenticationProvider'',
     ''com.demo.auth.modules.authentication.security.jwt.common.AbstractJwtAuthenticationProvider''),
    (''com.demo.auth.security.common.AbstractJwtValidationService'',
     ''com.demo.auth.modules.authentication.security.jwt.common.AbstractJwtValidationService''),
    (''com.demo.auth.security.common.JwtAuthenticationToken'',
     ''com.demo.auth.modules.authentication.security.jwt.common.JwtAuthenticationToken''),
    (''com.demo.auth.security.common.JwtTokenValidationService'',
     ''com.demo.auth.modules.authentication.security.jwt.common.JwtTokenValidationService''),
    (''com.demo.auth.security.common.JwtValidationResult'',
     ''com.demo.auth.modules.authentication.security.jwt.common.JwtValidationResult''),
    (''com.demo.auth.security.common.TokenType'',
     ''com.demo.auth.modules.authentication.security.jwt.common.TokenType''),
    (''com.demo.auth.security.filters.JwtAuthenticationFilter'',
     ''com.demo.auth.modules.authentication.security.filters.JwtAuthenticationFilter''),
    (''com.demo.auth.security.filters.JwtAuthenticationFilterRouting'',
     ''com.demo.auth.modules.authentication.security.filters.JwtAuthenticationFilterRouting''),
    (''com.demo.auth.config.ProvidersSecurityConfiguration'',
     ''com.demo.auth.common.config.ProvidersSecurityConfiguration''),
    (''com.demo.auth.config.AuthCacheConfiguration'',
     ''com.demo.auth.common.config.AuthCacheConfiguration''),
    (''com.demo.auth.config.FallbackJwtConfig'',
     ''com.demo.auth.common.config.FallbackJwtConfig''),
    (''com.demo.auth.config.RetryConfiguration'',
     ''com.demo.auth.common.config.RetryConfiguration''),
    (''com.demo.auth.service.AuthDatabaseService'',
     ''com.demo.auth.common.config.AuthDatabaseService''),
    (''com.demo.auth.service.AuthSecurityService'',
     ''com.demo.auth.common.config.AuthSecurityService''),
    (''com.demo.auth.controller.CacheController'',
     ''com.demo.auth.common.config.CacheController''),
    (''com.demo.auth.security.SecurityConfigurationFactory'',
     ''com.demo.auth.common.security.SecurityConfigurationFactory''),
    (''com.demo.auth.security.SecurityProperties'',
     ''com.demo.auth.common.security.SecurityProperties''),
    (''com.demo.auth.security.PasswordEncoderConfig'',
     ''com.demo.auth.common.security.PasswordEncoderConfig''),
    (''com.demo.auth.security.RateLimitingConfig'',
     ''com.demo.auth.common.security.RateLimitingConfig''),
    (''com.demo.auth.security.SecurityConfiguration'',
     ''com.demo.auth.common.security.SecurityConfiguration''),
    (''com.demo.auth.security.CustomBearerTokenAuthenticationEntryPoint'',
     ''com.demo.auth.common.security.CustomBearerTokenAuthenticationEntryPoint''),
    (''com.demo.auth.service.AuthCacheService'',
     ''com.demo.auth.common.cache.AuthCacheService'')]"

text \<open>\<open>s.rsplit('.', 1)[0]\<close>: the text before the last dot, the whole text when it has none.\<close>

definition rsplit_dot_head :: "string \<Rightarrow> string" where
  "rsplit_dot_head s =
     (if CHR ''.'' \<in> set s then rev (tl (dropWhile (\<lambda>c. c \<noteq> CHR ''.'') (rev s))) else s)"

text \<open>The pattern \<open>import\s+<re.escape(old_import)>;\<close>.\<close>

definition import_pattern :: "string \<Rightarrow> atom list" where
  "import_pattern old_import = [Lit ''import'', Plus is_space, Lit old_import, Lit '';'']"

text \<open>The pattern \<open>import\s+<re.escape(old_package)>\.\*;\<close>.\<close>

definition wildcard_pattern :: "string \<Rightarrow> atom list" where
  "wildcard_pattern old_package = [Lit ''import'', Plus is_space, Lit old_package, Lit ''.*;'']"

text \<open>One round of the loop over \<open>IMPORT_MAPPINGS.items()\<close>: the two substitutions of an entry.\<close>

definition apply_mapping :: "string \<Rightarrow> string \<times> string \<Rightarrow> string" where
  "apply_mapping content e =
     (let old_import = fst e; new_import = snd e;
          content1 = re_sub False (import_pattern old_import)
                       (''import '' @ new_import @ '';'') True content;
          old_package = rsplit_dot_head old_import;
          new_package = rsplit_dot_head new_import
      in re_sub False (wildcard_pattern old_package)
           (''import '' @ new_package @ ''.*;'') True content1)"

definition update_imports_text :: "string \<Rightarrow> string" where
  "update_imports_text content = foldl apply_mapping content IMPORT_MAPPINGS"

text \<open>
  \<open>update_imports_in_file\<close> and the two \<open>main\<close> functions work on files; they are
  modelled in the last section of the definitions, after the file system.
\<close>

section \<open>Files, directories and the console\<close>

text \<open>
  A path is the list of its components below the script's \<open>BASE_PATH\<close>. The state of the
  world is the regular files with their text and metadata, the directories, and what was
  printed. Whether a system call fails for a reason outside the model (permissions, a
  full disk, a text that does not decode) is decided by four predicates of the world,
  which the scripts never change. What is printed is a message of a datatype: the
  wording of the lines is not part of any claim.
\<close>

type_synonym path = "string list"

record regular_file =
  file_text :: string
  file_meta :: nat

datatype exn = FileNotFoundError | IsADirectoryError | SameFileError | OSError

datatype msg =
    Banner string
  | SourceNotFound path
  | Moved path path
  | ErrorMoving path exn
  | MovedCount nat
  | FailedCount nat
  | UpdatedPackage string
  | ErrorUpdatingPackage path exn
  | UpdatedDeclarations nat
  | FoundJavaFiles nat
  | ErrorUpdating path exn
  | Updated path
  | UpdatedImports nat

record world =
  files :: "(path \<times> regular_file) list"
  dirs :: "path list"
  mkdir_fails :: "path \<Rightarrow> bool"
  copy_fails :: "path \<Rightarrow> path \<Rightarrow> bool"
  read_fails :: "path \<Rightarrow> bool"
  write_fails :: "path \<Rightarrow> bool"
  console :: "msg list"

definition print :: "msg \<Rightarrow> world \<Rightarrow> world" where
  "print m w = w\<lparr>console := console w @ [m]\<rparr>"

text \<open>\<open>Path.exists()\<close>.\<close>

definition path_exists :: "world \<Rightarrow> path \<Rightarrow> bool" where
  "path_exists w p = (map_of (files w) p \<noteq> None \<or> p \<in> set (dirs w))"

text \<open>The directory \<open>d\<close> and the directories above it, below the base.\<close>

definition ancestors :: "path \<Rightarrow> path list" where
  "ancestors d = map (\<lambda>n. take n d) [1 ..< Suc (length d)]"

text \<open>\<open>d.mkdir(parents=True, exist_ok=True)\<close>: raises, or makes every missing directory.\<close>

definition mkdir_parents :: "path \<Rightarrow> world \<Rightarrow> exn + world" where
  "mkdir_parents d w =
     (if mkdir_fails w d then Inl OSError
      else Inr (w\<lparr>dirs := dirs w @ filter (\<lambda>q. q \<notin> set (dirs w)) (ancestors d)\<rparr>))"

text \<open>
  \<open>shutil.copy2(src, dest)\<close>: the text and the metadata of \<open>src\<close> go to \<open>dest\<close>, or into
  \<open>dest\<close> under the name of \<open>src\<close> when \<open>dest\<close> is a directory.
\<close>

definition copy2 :: "path \<Rightarrow> path \<Rightarrow> world \<Rightarrow> exn + world" where
  "copy2 src dest w =
     (case map_of (files w) src of
        None \<Rightarrow> Inl (if src \<in> set (dirs w) then IsADirectoryError else FileNotFoundError)
      | Some f \<Rightarrow>
          (let target = (if dest \<in> set (dirs w) then dest @ [last src] else dest)
           in if target = src then Inl SameFileError
              else if copy_fails w src dest then Inl OSError
              else Inr (w\<lparr>files := AList.update target f (files w)\<rparr>)))"

definition carriage_return :: char where
  "carriage_return = CHR 0x0D"

text \<open>
  A file is opened in text mode with the default \<open>newline=None\<close>. On reading, a carriage
  return followed by a line feed, and a carriage return alone, both arrive as one line
  feed. On writing, a line feed is written as \<open>os.linesep\<close>, which is the line feed itself
  on the POSIX system of \<open>BASE_PATH\<close> (\<open>/Users/...\<close>). So \<open>file_text\<close> is what the file
  holds, \<open>read_text\<close> gives it with its line ends translated, and \<open>write_text\<close> stores
  the text it is given.
\<close>

fun universal_newlines :: "string \<Rightarrow> string" where
  "universal_newlines [] = []"
| "universal_newlines [c] = [if c = carriage_return then newline else c]"
| "universal_newlines (c # d # cs) =
     (if c = carriage_return
      then (if d = newline then newline # universal_newlines cs
            else newline # universal_newlines (d # cs))
      else c # universal_newlines (d # cs))"

text \<open>\<open>Path.read_text()\<close> and \<open>Path.write_text(text)\<close>.\<close>

definition read_text :: "path \<Rightarrow> world \<Rightarrow> exn + string" where
  "read_text p w =
     (case map_of (files w) p of
        None \<Rightarrow> Inl (if p \<in> set (dirs w) then IsADirectoryError else FileNotFoundError)
      | Some f \<Rightarrow> if read_fails w p then Inl OSError else Inr (universal_newlines (file_text f)))"

definition write_text :: "path \<Rightarrow> string \<Rightarrow> world \<Rightarrow> exn + world" where
  "write_text p data w =
     (if p \<in> set (dirs w) then Inl IsADirectoryError
      else if write_fails w p then Inl OSError
      else Inr (w\<lparr>files := AList.update p
             (case map_of (files w) p of
                None \<Rightarrow> \<lparr>file_text = data, file_meta = 0\<rparr>
              | Some f \<Rightarrow> f\<lparr>file_text := data\<rparr>)
             (files w)\<rparr>))"

fun ends_with :: "string \<Rightarrow> string \<Rightarrow> bool" where
  "ends_with suffix s = starts_with (rev suffix) (rev s)"

text \<open>
  \<open>BASE_PATH.glob(subtree + "/**/*.java")\<close>: the files and directories below the directory
  \<open>subtree\<close>, at any depth, whose name ends in \<open>.java\<close>; and \<open>BASE_PATH.glob("**/*.java")\<close>.
  The order of the result is that of the directory listing, here that of the world.
\<close>

definition glob_java_under :: "string \<Rightarrow> world \<Rightarrow> path list" where
  "glob_java_under subtree w =
     filter (\<lambda>p. 2 \<le> length p \<and> hd p = subtree \<and> ends_with ''.java'' (last p))
       (map fst (files w) @ dirs w)"


section \<open>The relocator (migrate\_to\_modules.py)\<close>

text \<open>
  \<open>MIGRATIONS\<close>, in insertion order; \<open>BASE_PATH / "a/b"\<close> has the components \<open>a\<close>, \<open>b\<close>.
  The dictionary \<open>PACKAGE_MAPPINGS\<close> of the script is used nowhere and is left out.
\<close>

definition MIGRATIONS :: "(path \<times> path) list" where
  "MIGRATIONS = [
    ([''entity'', ''User.java''],
     [''modules'', ''user'', ''entity'', ''User.java'']),
    ([''repository'', ''UserRepository.java''],
     [''modules'', ''user'', ''repository'', ''UserRepository.java'']),
    ([''service'', ''UserService.java''],
     [''modules'', ''user'', ''service'', ''UserService.java'']),
    ([''service'', ''UserDetailsServiceImpl.java''],
     [''modules'', ''user'', ''service'', ''UserDetailsServiceImpl.java'']),
    ([''service'', ''UserRegistrationService.java''],
     [''modules'', ''user'', ''service'', ''UserRegistrationService.java'']),
    ([''controller'', ''UserController.java''],
     [''modules'', ''user'', ''controller'', ''UserController.java'']),
    ([''controller'', ''RegistrationController.java''],
     [''modules'', ''user'', ''controller'', ''RegistrationController.java'']),
    ([''mapper'', ''UserMapper.java''],
     [''modules'', ''user'', ''mapper'', ''UserMapper.java'']),
    ([''mapper'', ''UserDtoMapper.java''],
     [''modules'', ''user'', ''mapper'', ''UserDtoMapper.java'']),
    ([''service'', ''dto'', ''UserInfoDto.java''],
     [''modules'', ''user'', ''dto'', ''response'', ''UserInfoDto.java'']),
    ([''dto'', ''UserDTO.java''],
     [''modules'', ''user'', ''dto'', ''response'', ''UserDTO.java'']),
    ([''dto'', ''RegistrationRequestDto.java''],
     [''modules'', ''user'', ''dto'', ''request'', ''RegistrationRequestDto.java'']),
    ([''dto'', ''RegistrationResponseDto.java''],
     [''modules'', ''user'', ''dto'', ''response'', ''RegistrationResponseDto.java'']),
    ([''service'', ''AuthenticationService.java''],
     [''modules'', ''authentication'', ''service'', ''AuthenticationService.java'']),
    ([''service'', ''JwtService.java''],
     [''modules'', ''authentication'', ''service'', ''JwtService.java'']),
    ([''service'', ''StatelessRefreshTokenService.java''],
     [''modules'', ''authentication'', ''service'', ''StatelessRefreshTokenService.java'']),
    ([''controller'', ''AuthController.java''],
     [''modules'', ''authentication'', ''controller'', ''AuthenticationController.java'']),
    ([''dto'', ''LoginRequestDto.java''],
     [''modules'', ''authentication'', ''dto'', ''request'', ''LoginRequestDto.java'']),
    ([''dto'', ''AuthenticationRequestDto.java''],
     [''modules'', ''authentication'', ''dto'', ''request'', ''AuthenticationRequestDto.java'']),
    ([''dto'', ''AuthenticationResponseDto.java''],
     [''modules'', ''authentication'', ''dto'', ''response'', ''AuthenticationResponseDto.java'']),
    ([''service'', ''dto'', ''RefreshTokenRequestDto.java''],
     [''modules'', ''authentication'', ''dto'', ''request'', ''RefreshTokenRequestDto.java'']),
    ([''security'', ''custom'', ''CustomJwtConfig.java''],
     [''modules'', ''authentication'', ''security'', ''jwt'', ''custom'', ''CustomJwtConfig.java'']),
    ([''security'', ''custom'', ''CustomJwtAuthenticationProvider.java''],
     [''modules'', ''authentication'', ''security'', ''jwt'', ''custom'', ''CustomJwtAuthenticationProvider.java'']),
    ([''security'', ''custom'', ''CustomJwtAuthenticationToken.java''],
     [''modules'', ''authentication'', ''security'', ''jwt'', ''custom'', ''CustomJwtAuthenticationToken.java'']),
    ([''security'', ''custom'', ''CustomJwtValidationService.java''],
     [''modules'', ''authentication'', ''security'', ''jwt'', ''custom'', ''CustomJwtValidationService.java'']),
    ([''security'', ''keycloak'', ''KeycloakJwtConfig.java''],
     [''modules'', ''authentication'', ''security'', ''jwt'', ''keycloak'', ''KeycloakJwtConfig.java'']),
    ([''security'', ''keycloak'', ''KeycloakJwtAuthenticationProvider.java''],
     [''modules'', ''authentication'', ''security'', ''jwt'', ''keycloak'', ''KeycloakJwtAuthenticationProvider.java'']),
    ([''security'', ''keycloak'', ''KeycloakJwtAuthenticationToken.java''],
     [''modules'', ''authentication'', ''security'', ''jwt'', ''keycloak'', ''KeycloakJwtAuthenticationToken.java'']),
    ([''security'', ''keycloak'', ''KeycloakJwtAuthenticationConverter.java''],
     [''modules'', ''authentication'', ''security'', ''jwt'', ''keycloak'', ''KeycloakJwtAuthenticationConverter.java'']),
    ([''security'', ''keycloak'', ''KeycloakTokenValidationService.java''],
     [''modules'', ''authentication'', ''security'', ''jwt'', ''keycloak'', ''KeycloakTokenValidationService.java'']),
    ([''security'', ''keycloak'', ''KeycloakRoleConverter.java''],
     [''modules'', ''authentication'', ''security'', ''jwt'', ''keycloak'', ''KeycloakRoleConverter.java'']),
    ([''security'', ''keycloak'', ''KeycloakProperties.java''],
     [''modules'', ''authentication'', ''security'', ''jwt'', ''keycloak'', ''KeycloakProperties.java'']),
    ([''security'', ''keycloak'', ''KeycloakSecurityAuditLogger.java''],
     [''modules'', ''authentication'', ''security'', ''jwt'', ''keycloak'', ''KeycloakSecurityAuditLogger.java'']),
    ([''security'', ''common'', ''AbstractJwtAuthenticationProvider.java''],
     [''modules'', ''authentication'', ''security'', ''jwt'', ''common'', ''AbstractJwtAuthenticationProvider.java'']),
    ([''security'', ''common'', ''AbstractJwtValidationService.java''],
     [''modules'', ''authentication'', ''security'', ''jwt'', ''common'', ''AbstractJwtValidationService.java'']),
    ([''security'', ''common'', ''JwtAuthenticationToken.java''],
     [''modules'', ''authentication'', ''security'', ''jwt'', ''common'', ''JwtAuthenticationToken.java'']),
    ([''security'', ''common'', ''JwtTokenValidationService.java''],
     [''modules'', ''authentication'', ''security'', ''jwt'', ''common'', ''JwtTokenValidationService.java'']),
    ([''security'', ''common'', ''JwtValidationResult.java''],
     [''modules'', ''authentication'', ''security'', ''jwt'', ''common'', ''JwtValidationResult.java'']),
    ([''security'', ''common'', ''TokenType.java''],
     [''modules'', ''authentication'', ''security'', ''jwt'', ''common'', ''TokenType.java'']),
    ([''security'', ''filters'', ''JwtAuthenticationFilter.java''],
     [''modules'', ''authentication'', ''security'', ''filters'', ''JwtAuthenticationFilter.java'']),
    ([''security'', ''filters'', ''JwtAuthenticationFilterRouting.java''],
     [''modules'', ''authentication'', ''security'', ''filters'', ''JwtAuthenticationFilterRouting.java'']),
    ([''entity'', ''Role.java''],
     [''modules'', ''role'', ''entity'', ''Role.java'']),
    ([''entity'', ''RoleType.java''],
     [''modules'', ''role'', ''entity'', ''RoleType.java'']),
    ([''repository'', ''RoleRepository.java''],
     [''modules'', ''role'', ''repository'', ''RoleRepository.java'']),
    ([''service'', ''RoleService.java''],
     [''modules'', ''role'', ''service'', ''RoleService.java'']),
    ([''service'', ''mapper'', ''RoleMapper.java''],
     [''modules'', ''role'', ''mapper'', ''RoleMapper.java'']),
    ([''entity'', ''Permission.java''],
     [''modules'', ''permission'', ''entity'', ''Permission.java'']),
    ([''entity'', ''RolePermission.java''],
     [''modules'', ''permission'', ''entity'', ''RolePermission.java'']),
    ([''config'', ''ProvidersSecurityConfiguration.java''],
     [''common'', ''config'', ''ProvidersSecurityConfiguration.java'']),
    ([''config'', ''AuthCacheConfiguration.java''],
     [''common'', ''config'', ''AuthCacheConfiguration.java'']),
    ([''config'', ''FallbackJwtConfig.java''],
     [''common'', ''config'', ''FallbackJwtConfig.java'']),
    ([''config'', ''RetryConfiguration.java''],
     [''common'', ''config'', ''RetryConfiguration.java'']),
    ([''security'', ''SecurityConfigurationFactory.java''],
     [''common'', ''security'', ''SecurityConfigurationFactory.java'']),
    ([''security'', ''SecurityProperties.java''],
     [''common'', ''security'', ''SecurityProperties.java'']),
    ([''security'', ''PasswordEncoderConfig.java''],
     [''common'', ''security'', ''PasswordEncoderConfig.java'']),
    ([''security'', ''RateLimitingConfig.java''],
     [''common'', ''security'', ''RateLimitingConfig.java'']),
    ([''security'', ''SecurityConfiguration.java''],
     [''common'', ''security'', ''SecurityConfiguration.java'']),
    ([''security'', ''CustomBearerTokenAuthenticationEntryPoint.java''],
     [''common'', ''security'', ''CustomBearerTokenAuthenticationEntryPoint.java'']),
    ([''service'', ''AuthCacheService.java''],
     [''common'', ''cache'', ''AuthCacheService.java'']),
    ([''service'', ''exception'', ''AuthenticationException.java''],
     [''common'', ''exception'', ''AuthenticationException.java'']),
    ([''service'', ''exception'', ''ResourceNotFoundException.java''],
     [''common'', ''exception'', ''ResourceNotFoundException.java'']),
    ([''service'', ''AuthDatabaseService.java''],
     [''common'', ''config'', ''AuthDatabaseService.java'']),
    ([''service'', ''AuthSecurityService.java''],
     [''common'', ''config'', ''AuthSecurityService.java'']),
    ([''controller'', ''CacheController.java''],
     [''common'', ''config'', ''CacheController.java''])]"

definition move_file :: "path \<Rightarrow> path \<Rightarrow> world \<Rightarrow> (exn + bool) \<times> world" where
  "move_file src_rel dest_rel w =
     (if \<not> path_exists w src_rel then (Inr False, print (SourceNotFound src_rel) w)
      else
        (case mkdir_parents (butlast dest_rel) w of
           Inl e \<Rightarrow> (Inl e, w)
         | Inr w1 \<Rightarrow>
             (case copy2 src_rel dest_rel w1 of
                Inr w2 \<Rightarrow> (Inr True, print (Moved src_rel dest_rel) w2)
              | Inl e \<Rightarrow> (Inr False, print (ErrorMoving src_rel e) w1))))"

text \<open>\<open>".".join(parts)\<close>.\<close>

fun join_dots :: "string list \<Rightarrow> string" where
  "join_dots [] = []"
| "join_dots [x] = x"
| "join_dots (x # y # ys) = x @ ''.'' @ join_dots (y # ys)"

text \<open>\<open>"com.demo.auth." + ".".join(list(rel_path.parent.parts))\<close>.\<close>

definition new_package_of :: "path \<Rightarrow> string" where
  "new_package_of rel_path = ''com.demo.auth.'' @ join_dots (butlast rel_path)"

text \<open>The pattern \<open>^package\s+com\.demo\.auth\.[^;]+;\<close>, used with \<open>re.MULTILINE\<close>.\<close>

definition package_pattern :: "atom list" where
  "package_pattern =
     [Lit ''package'', Plus is_space, Lit ''com.demo.auth.'', Plus not_semicolon, Lit '';'']"

text \<open>
  The \<open>re.sub\<close> call of \<open>update_package_declaration\<close>, from the text read to the text
  written. Its replacement is the new declaration; \<open>re.sub\<close> reads a backslash in it as an
  escape, so the text written is the declaration itself for paths whose directory names
  have no backslash, the paths the theorems on this function are about.
\<close>

definition update_package_text :: "path \<Rightarrow> string \<Rightarrow> string" where
  "update_package_text rel_path content =
     re_sub True package_pattern (''package '' @ new_package_of rel_path @ '';'') True content"

definition update_package_declaration :: "path \<Rightarrow> world \<Rightarrow> bool \<times> world" where
  "update_package_declaration file_path w =
     (if \<not> path_exists w file_path then (False, w)
      else
        (case read_text file_path w of
           Inl e \<Rightarrow> (False, print (ErrorUpdatingPackage file_path e) w)
         | Inr content \<Rightarrow>
             (case write_text file_path (update_package_text file_path content) w of
                Inl e \<Rightarrow> (False, print (ErrorUpdatingPackage file_path e) w)
              | Inr w1 \<Rightarrow> (True, print (UpdatedPackage (new_package_of file_path)) w1))))"

text \<open>The loop over \<open>MIGRATIONS.items()\<close>, with its two counters; an exception ends it.\<close>

fun move_all :: "(path \<times> path) list \<Rightarrow> nat \<Rightarrow> nat \<Rightarrow> world \<Rightarrow> (exn + nat \<times> nat) \<times> world" where
  "move_all [] moved_count failed_count w = (Inr (moved_count, failed_count), w)"
| "move_all ((src, dest) # rest) moved_count failed_count w =
     (case move_file src dest w of
        (Inl e, w1) \<Rightarrow> (Inl e, w1)
      | (Inr True, w1) \<Rightarrow> move_all rest (Suc moved_count) failed_count w1
      | (Inr False, w1) \<Rightarrow> move_all rest moved_count (Suc failed_count) w1)"

text \<open>The loop over \<open>java_files\<close>.\<close>

fun update_all :: "path list \<Rightarrow> nat \<Rightarrow> world \<Rightarrow> nat \<times> world" where
  "update_all [] updated_count w = (updated_count, w)"
| "update_all (java_file # rest) updated_count w =
     (case update_package_declaration java_file w of
        (True, w1) \<Rightarrow> update_all rest (Suc updated_count) w1
      | (False, w1) \<Rightarrow> update_all rest updated_count w1)"

definition java_files_of :: "world \<Rightarrow> path list" where
  "java_files_of w = glob_java_under ''modules'' w @ glob_java_under ''common'' w"

definition migrate_main :: "world \<Rightarrow> (exn + unit) \<times> world" where
  "migrate_main w =
     (case move_all MIGRATIONS 0 0
             (print (Banner ''Moving files...'')
               (print (Banner ''Starting migration to modular structure...'') w)) of
        (Inl e, w1) \<Rightarrow> (Inl e, w1)
      | (Inr (moved_count, failed_count), w1) \<Rightarrow>
          (let w2 = print (Banner ''Updating package declarations...'')
                      (print (FailedCount failed_count) (print (MovedCount moved_count) w1));
               (updated_count, w3) = update_all (java_files_of w2) 0 w2
           in (Inr (),
               print (Banner ''Migration complete!'') (print (UpdatedDeclarations updated_count) w3))))"

section \<open>The import rewriter on files\<close>

definition update_imports_in_file :: "path \<Rightarrow> world \<Rightarrow> bool \<times> world" where
  "update_imports_in_file file_path w =
     (case read_text file_path w of
        Inl e \<Rightarrow> (False, print (ErrorUpdating file_path e) w)
      | Inr original_content \<Rightarrow>
          (let content = update_imports_text original_content
           in if content \<noteq> original_content
              then (case write_text file_path content w of
                      Inl e \<Rightarrow> (False, print (ErrorUpdating file_path e) w)
                    | Inr w1 \<Rightarrow> (True, w1))
              else (False, w)))"

fun update_files :: "path list \<Rightarrow> nat \<Rightarrow> world \<Rightarrow> nat \<times> world" where
  "update_files [] updated_count w = (updated_count, w)"
| "update_files (java_file # rest) updated_count w =
     (case update_imports_in_file java_file w of
        (True, w1) \<Rightarrow> update_files rest (Suc updated_count) (print (Updated java_file) w1)
      | (False, w1) \<Rightarrow> update_files rest updated_count w1)"


section \<open>Auxiliary definitions\<close>

text \<open>
  The definitions of this section are not code of the scripts. They say what the
  substitutions do to a text, name the paths and the worlds the theorems speak of, and
  are related to the functions of the scripts by the lemmas of the next section. For the
  import rewriter the idea is this: a text is cut at its semicolons, and a statement
  \<open>import<ws>NAME\<close> at the end of a piece is the only place where one of its patterns
  can match.
\<close>

text \<open>A character that can stand in a name: no white space, no semicolon.\<close>

definition name_char :: "char \<Rightarrow> bool" where
  "name_char c = (c \<noteq> semicolon \<and> \<not> is_space c)"

definition valid_name :: "string \<Rightarrow> bool" where
  "valid_name nm = (nm \<noteq> [] \<and> list_all name_char nm)"

text \<open>
  \<open>stmt_tail K seg\<close> reads a piece of text that has no semicolon from its end: a name,
  white space before it and the keyword \<open>K\<close> before that; it gives what stands before
  the keyword, the white space and the name.
\<close>

definition stmt_tail :: "string \<Rightarrow> string \<Rightarrow> (string \<times> string \<times> string) option" where
  "stmt_tail K seg =
     (let r = rev seg; nm = takeWhile name_char r; r1 = dropWhile name_char r;
          w = takeWhile is_space r1; r2 = dropWhile is_space r1
      in if nm \<noteq> [] \<and> w \<noteq> [] \<and> starts_with (rev K) r2
         then Some (rev (drop (length K) r2), rev w, rev nm) else None)"

text \<open>
  A piece that ends in such a statement, with a name that \<open>g\<close> maps, gets the keyword, one
  space and the new name in its place; any other piece stays.
\<close>

definition rewrite_seg :: "string \<Rightarrow> (string \<Rightarrow> string option) \<Rightarrow> string \<Rightarrow> string" where
  "rewrite_seg K g seg =
     (case stmt_tail K seg of
        None \<Rightarrow> seg
      | Some (pre, w, nm) \<Rightarrow>
          (case g nm of None \<Rightarrow> seg | Some new \<Rightarrow> pre @ K @ '' '' @ new))"

text \<open>What the proofs need of the keyword \<open>import\<close>.\<close>

definition keyword :: "string \<Rightarrow> bool" where
  "keyword K = (K \<noteq> [] \<and> \<not> is_space (last K) \<and> semicolon \<notin> set K)"

text \<open>The pieces of a text between its semicolons, each rewritten on its own.\<close>

function rewrite_text :: "string \<Rightarrow> (string \<Rightarrow> string option) \<Rightarrow> string \<Rightarrow> string" where
  "rewrite_text K g s =
     (case dropWhile not_semicolon s of
        [] \<Rightarrow> s
      | c # rest \<Rightarrow> rewrite_seg K g (takeWhile not_semicolon s) @ c # rewrite_text K g rest)"
  by pat_completeness auto

termination
proof (relation "measure (\<lambda>(K, g, s). length s)")
  fix K :: string and g :: "string \<Rightarrow> string option" and s c rest
  assume "dropWhile not_semicolon s = c # rest"
  then have "length (c # rest) \<le> length s"
    by (metis length_dropWhile_le)
  then show "((K, g, rest), (K, g, s)) \<in> measure (\<lambda>(K, g, s). length s)" by simp
qed simp

declare rewrite_text.simps [simp del]

text \<open>The name map of one substitution, and the pattern of a statement with a literal name.\<close>

definition single_map :: "string \<Rightarrow> string \<Rightarrow> string \<Rightarrow> string option" where
  "single_map old new nm = (if nm = old then Some new else None)"

definition stmt_pattern :: "string \<Rightarrow> string \<Rightarrow> string \<Rightarrow> atom list" where
  "stmt_pattern K A B = [Lit K, Plus is_space, Lit A, Lit (B @ [semicolon])]"

text \<open>One name map after another, and the name map of a list of substitutions run in order.\<close>

definition then_map :: "(string \<Rightarrow> string option) \<Rightarrow> (string \<Rightarrow> string option) \<Rightarrow> string \<Rightarrow> string option" where
  "then_map g1 g2 nm =
     (case g1 nm of
        None \<Rightarrow> g2 nm
      | Some new \<Rightarrow> Some (case g2 new of None \<Rightarrow> new | Some new' \<Rightarrow> new'))"

fun chain :: "(string \<times> string) list \<Rightarrow> string \<Rightarrow> string option" where
  "chain [] = (\<lambda>nm. None)"
| "chain ((old, new) # tbl) = then_map (single_map old new) (chain tbl)"

text \<open>The two substitutions of an entry of \<open>IMPORT_MAPPINGS\<close>, as pairs of names, and those of the whole table.\<close>

definition entry_names :: "string \<times> string \<Rightarrow> (string \<times> string) list" where
  "entry_names e =
     [(fst e, snd e), (rsplit_dot_head (fst e) @ ''.*'', rsplit_dot_head (snd e) @ ''.*'')]"

definition name_table :: "(string \<times> string) list" where
  "name_table = concat (map entry_names IMPORT_MAPPINGS)"

text \<open>What the proofs need of an entry.\<close>

definition good_entry :: "string \<times> string \<Rightarrow> bool" where
  "good_entry e =
     (valid_name (fst e) \<and> valid_name (snd e) \<and> rsplit_dot_head (fst e) \<noteq> [] \<and>
      valid_name (rsplit_dot_head (fst e) @ ''.*'') \<and> valid_name (rsplit_dot_head (snd e) @ ''.*''))"

text \<open>New names start with one of two prefixes that no old name has; this is checked entry by entry.\<close>

definition new_name :: "string \<Rightarrow> bool" where
  "new_name nm = (starts_with ''com.demo.auth.modules.'' nm \<or> starts_with ''com.demo.auth.common.'' nm)"

definition ident_char :: "char \<Rightarrow> bool" where
  "ident_char c = (name_char c \<and> c \<noteq> CHR ''*'')"

definition entry_ok :: "string \<times> string \<Rightarrow> bool" where
  "entry_ok e = (list_all ident_char (fst e) \<and> list_all name_char (snd e) \<and>
     starts_with ''com.demo.auth.'' (fst e) \<and> new_name (snd e) \<and> \<not> new_name (fst e))"

text \<open>The first entry of the table, in its order, whose old package is \<open>p\<close>.\<close>

definition first_with_package :: "string \<Rightarrow> (string \<times> string) option" where
  "first_with_package p = find (\<lambda>e. rsplit_dot_head (fst e) = p) IMPORT_MAPPINGS"

text \<open>A path that is not below \<open>modules/\<close> or \<open>common/\<close>, and what the proofs need of a pair of \<open>MIGRATIONS\<close>.\<close>

definition outside_subtrees :: "path \<Rightarrow> bool" where
  "outside_subtrees p = (p = [] \<or> (hd p \<noteq> ''modules'' \<and> hd p \<noteq> ''common''))"

definition migration_ok :: "path \<times> path \<Rightarrow> bool" where
  "migration_ok e = (outside_subtrees (fst e) \<and> snd e \<noteq> [] \<and> \<not> outside_subtrees (snd e))"

text \<open>A world in which no system call fails, and the worlds of the examples.\<close>

definition plain_world :: "(path \<times> regular_file) list \<Rightarrow> path list \<Rightarrow> world" where
  "plain_world fs ds = \<lparr>files = fs, dirs = ds, mkdir_fails = (\<lambda>d. False),
     copy_fails = (\<lambda>s d. False), read_fails = (\<lambda>p. False), write_fails = (\<lambda>p. False),
     console = []\<rparr>"

definition user_java :: regular_file where
  "user_java = \<lparr>file_text = ''package com.demo.auth.entity;'', file_meta = 420\<rparr>"



definition one_source_world :: world where
  "one_source_world = plain_world [([''entity'', ''User.java''], user_java)] [[''entity'']]"


definition backslash :: char where
  "backslash = CHR 0x5C"


section \<open>Properties\<close>

subsection \<open>Literal prefixes and greedy repetition\<close>

lemma starts_with_iff: "starts_with l s \<longleftrightarrow> take (length l) s = l"
  by (induction l s rule: starts_with.induct) auto

lemma starts_with_append_same [simp]: "starts_with l (l @ r)"
  by (simp add: starts_with_iff)

lemma starts_withD: "starts_with l s \<Longrightarrow> s = l @ drop (length l) s"
  by (metis append_take_drop_id starts_with_iff)

lemma starts_with_append:
  "starts_with (a @ b) s \<longleftrightarrow> starts_with a s \<and> starts_with b (drop (length a) s)"
  by (induction a s rule: starts_with.induct) auto

lemma starts_with_cut:
  "c \<notin> set l \<Longrightarrow> starts_with l (seg @ c # rest) \<longleftrightarrow> starts_with l seg"
  by (induction l seg rule: starts_with.induct) auto

lemma starts_with_terminated:
  "c \<notin> set l \<Longrightarrow> c \<notin> set x \<Longrightarrow> starts_with (l @ [c]) (x @ c # rest) \<longleftrightarrow> x = l"
proof (induction l arbitrary: x)
  case Nil
  then show ?case by (cases x) auto
next
  case (Cons a l)
  then show ?case by (cases x) auto
qed

lemma first_some_None: "(\<And>x. x \<in> set xs \<Longrightarrow> f x = None) \<Longrightarrow> first_some f xs = None"
  by (induction xs) auto

lemma first_some_greedy:
  assumes "\<And>j. 1 \<le> j \<Longrightarrow> j < k \<Longrightarrow> f j = None"
  shows "first_some f (rev [1 ..< Suc k]) = (if k = 0 then None else f k)"
proof (cases "k = 0")
  case True
  then show ?thesis by simp
next
  case False
  have A: "first_some f (rev [1 ..< k]) = None"
    by (rule first_some_None) (use assms in auto)
  have B: "rev [1 ..< Suc k] = k # rev [1 ..< k]"
    using False by simp
  show ?thesis unfolding B using A False by (simp split: option.split)
qed

lemma takeWhile_run: "j < length (takeWhile P xs) \<Longrightarrow> P (xs ! j)"
  by (metis nth_mem set_takeWhileD takeWhile_nth)

lemma starts_with_hd: "starts_with l s \<Longrightarrow> l \<noteq> [] \<Longrightarrow> s \<noteq> [] \<and> hd s = hd l"
  by (cases l; cases s) auto

lemma no_match_in_run:
  assumes "A \<noteq> []" "\<not> P (hd A)" "j < length (takeWhile P r)"
  shows "\<not> starts_with A (drop j r)"
proof
  assume h: "starts_with A (drop j r)"
  have jl: "j < length r"
    using assms(3) length_takeWhile_le [of P r] by simp
  from starts_with_hd [OF h assms(1)] have "hd (drop j r) = hd A" by simp
  moreover have "hd (drop j r) = r ! j" using jl by (simp add: hd_drop_conv_nth)
  ultimately show False using takeWhile_run [OF assms(3)] assms(2) by simp
qed

lemma match_seq_plus:
  assumes "A \<noteq> []" "\<not> P (hd A)"
  shows "match_seq (Plus P # Lit A # p) r =
     (let k = length (takeWhile P r)
      in if k = 0 then None else map_option (\<lambda>n. k + n) (match_seq (Lit A # p) (drop k r)))"
proof -
  let ?f = "\<lambda>k. map_option (\<lambda>n. k + n) (match_seq (Lit A # p) (drop k r))"
  have "first_some ?f (rev [1 ..< Suc (length (takeWhile P r))]) =
      (if length (takeWhile P r) = 0 then None else ?f (length (takeWhile P r)))"
  proof (rule first_some_greedy)
    fix j assume "1 \<le> j" "j < length (takeWhile P r)"
    then have "\<not> starts_with A (drop j r)"
      using no_match_in_run [of A P, OF assms] by blast
    then show "?f j = None" by simp
  qed
  then show ?thesis by (simp add: Let_def)
qed

lemma match_seq_keyword:
  assumes "A \<noteq> []" "\<not> P (hd A)"
  shows "match_seq [Lit K, Plus P, Lit A, Lit B] s =
     (if starts_with K s
      then (let k = length (takeWhile P (drop (length K) s))
            in if k \<noteq> 0 \<and> starts_with (A @ B) (drop (length K + k) s)
               then Some (length K + k + length A + length B) else None)
      else None)"
proof -
  have "match_seq [Lit K, Plus P, Lit A, Lit B] s =
      (if starts_with K s
       then map_option (\<lambda>n. length K + n) (match_seq (Plus P # Lit A # [Lit B]) (drop (length K) s))
       else None)"
    by simp
  also have "\<dots> = (if starts_with K s
      then (let k = length (takeWhile P (drop (length K) s))
            in if k \<noteq> 0 \<and> starts_with (A @ B) (drop (length K + k) s)
               then Some (length K + k + length A + length B) else None)
      else None)"
    unfolding match_seq_plus [of A P, OF assms]
    by (simp add: Let_def starts_with_append ac_simps)
  finally show ?thesis .
qed

subsection \<open>Statements at the end of a piece\<close>

lemma not_space_semicolon [simp]: "\<not> is_space semicolon"
  by (simp add: is_space_def semicolon_def whitespace_def)

lemma not_name_semicolon [simp]: "\<not> name_char semicolon"
  by (simp add: name_char_def)

lemma space_not_name: "is_space c \<Longrightarrow> \<not> name_char c"
  by (simp add: name_char_def)

lemma name_not_space: "name_char c \<Longrightarrow> \<not> is_space c"
  by (simp add: name_char_def)

lemma takeWhile_all_then:
  "list_all P xs \<Longrightarrow> (ys = [] \<or> \<not> P (hd ys)) \<Longrightarrow> takeWhile P (xs @ ys) = xs"
  by (induction xs) (auto simp: takeWhile_eq_Nil_iff)

lemma dropWhile_all_then:
  "list_all P xs \<Longrightarrow> (ys = [] \<or> \<not> P (hd ys)) \<Longrightarrow> dropWhile P (xs @ ys) = ys"
  by (induction xs) (auto simp: dropWhile_eq_self_iff)

lemma stmt_tail_intro:
  assumes K: "keyword K" and w: "w \<noteq> []" "list_all is_space w" and nm: "valid_name nm"
  shows "stmt_tail K (pre @ K @ w @ nm) = Some (pre, w, nm)"
proof -
  let ?r = "rev nm @ rev w @ rev K @ rev pre"
  have r: "rev (pre @ K @ w @ nm) = ?r" by simp
  have hw: "is_space (hd (rev w @ rev K @ rev pre))"
    using w by (cases w rule: rev_cases) (auto simp: list_all_iff)
  have 1: "takeWhile name_char ?r = rev nm"
    by (rule takeWhile_all_then) (use nm hw w in \<open>auto simp: valid_name_def list_all_iff space_not_name\<close>)
  have 2: "dropWhile name_char ?r = rev w @ rev K @ rev pre"
    by (rule dropWhile_all_then) (use nm hw w in \<open>auto simp: valid_name_def list_all_iff space_not_name\<close>)
  have hk: "\<not> is_space (hd (rev K @ rev pre))"
    using K by (cases K rule: rev_cases) (auto simp: keyword_def)
  have 3: "takeWhile is_space (rev w @ rev K @ rev pre) = rev w"
    by (rule takeWhile_all_then) (use w hk in \<open>auto simp: list_all_iff\<close>)
  have 4: "dropWhile is_space (rev w @ rev K @ rev pre) = rev K @ rev pre"
    by (rule dropWhile_all_then) (use w hk in \<open>auto simp: list_all_iff\<close>)
  show ?thesis
    unfolding stmt_tail_def r Let_def 1 2 3 4
    using w nm by (simp add: valid_name_def)
qed

lemma stmt_tail_elim:
  assumes "stmt_tail K seg = Some (pre, w, nm)"
  shows "seg = pre @ K @ w @ nm \<and> w \<noteq> [] \<and> list_all is_space w \<and> valid_name nm"
proof -
  let ?r = "rev seg"
  let ?r1 = "dropWhile name_char ?r"
  let ?r2 = "dropWhile is_space ?r1"
  from assms have nm: "nm = rev (takeWhile name_char ?r)" and w: "w = rev (takeWhile is_space ?r1)"
    and pre: "pre = rev (drop (length K) ?r2)" and ne: "takeWhile name_char ?r \<noteq> []"
    "takeWhile is_space ?r1 \<noteq> []" and st: "starts_with (rev K) ?r2"
    by (auto simp: stmt_tail_def Let_def split: if_splits)
  have "?r2 = rev K @ drop (length K) ?r2"
    using starts_withD [OF st] by simp
  then have "?r = takeWhile name_char ?r @ takeWhile is_space ?r1 @ rev K @ drop (length K) ?r2"
    by (metis takeWhile_dropWhile_id)
  then have "rev ?r = rev (takeWhile name_char ?r @ takeWhile is_space ?r1 @ rev K @ drop (length K) ?r2)"
    by simp
  then have "seg = pre @ K @ w @ nm"
    unfolding nm w pre by simp
  moreover have "list_all is_space w"
    unfolding w by (auto simp: list_all_iff dest: set_takeWhileD)
  moreover have "valid_name nm"
    unfolding nm valid_name_def using ne by (auto simp: list_all_iff dest: set_takeWhileD)
  moreover have "w \<noteq> []" unfolding w using ne by simp
  ultimately show ?thesis by blast
qed

lemma stmt_tail_Cons_Some:
  assumes "keyword K" "stmt_tail K cs = Some (pre, w, nm)"
  shows "stmt_tail K (c # cs) = Some (c # pre, w, nm)"
proof -
  from stmt_tail_elim [OF assms(2)]
  have "c # cs = (c # pre) @ K @ w @ nm" "w \<noteq> []" "list_all is_space w" "valid_name nm"
    by auto
  then show ?thesis using stmt_tail_intro [OF assms(1), of w nm "c # pre"] by simp
qed

lemma stmt_tail_Cons_None:
  assumes "keyword K" "stmt_tail K cs = None" "stmt_tail K (c # cs) = Some (pre, w, nm)"
  shows "pre = []"
proof (cases pre)
  case Nil
  then show ?thesis .
next
  case (Cons a pre')
  from stmt_tail_elim [OF assms(3)]
  have "c # cs = pre @ K @ w @ nm" "w \<noteq> []" "list_all is_space w" "valid_name nm"
    by auto
  then have "cs = pre' @ K @ w @ nm" using Cons by simp
  then have "stmt_tail K cs = Some (pre', w, nm)"
    using stmt_tail_intro [OF assms(1) \<open>w \<noteq> []\<close> \<open>list_all is_space w\<close> \<open>valid_name nm\<close>] by simp
  then show ?thesis using assms(2) by simp
qed

lemma takeWhile_stop: "\<not> P c \<Longrightarrow> takeWhile P (xs @ c # r) = takeWhile P xs"
  by (induction xs) auto

lemma dropWhile_stop: "\<not> P c \<Longrightarrow> dropWhile P (xs @ c # r) = dropWhile P xs @ c # r"
  by (induction xs) auto

lemma stmt_tail_Nil_iff:
  assumes "keyword K"
  shows "stmt_tail K seg = Some ([], w, nm) \<longleftrightarrow>
     seg = K @ w @ nm \<and> w \<noteq> [] \<and> list_all is_space w \<and> valid_name nm"
  using stmt_tail_intro [OF assms, of w nm "[]"] stmt_tail_elim [of K seg "[]" w nm] by auto

lemma valid_name_hd: "valid_name (A @ B) \<Longrightarrow> A \<noteq> [] \<Longrightarrow> \<not> is_space (hd A)"
  by (cases A) (auto simp: valid_name_def name_char_def)

lemma valid_name_hd': "valid_name nm \<Longrightarrow> \<not> is_space (hd nm)"
  by (cases nm) (auto simp: valid_name_def name_char_def)

lemma valid_name_no_semicolon: "valid_name nm \<Longrightarrow> semicolon \<notin> set nm"
  by (auto simp: valid_name_def list_all_iff)

lemma match_stmt:
  assumes K: "keyword K" and A: "A \<noteq> []" and L: "valid_name (A @ B)"
    and seg: "semicolon \<notin> set seg"
  shows "match_seq [Lit K, Plus is_space, Lit A, Lit (B @ [semicolon])] (seg @ semicolon # rest) =
     (case stmt_tail K seg of
        Some (pre, w, nm) \<Rightarrow> if pre = [] \<and> nm = A @ B then Some (Suc (length seg)) else None
      | None \<Rightarrow> None)"
proof -
  let ?s = "seg @ semicolon # rest"
  let ?rhs = "case stmt_tail K seg of
        Some (pre, w, nm) \<Rightarrow> if pre = [] \<and> nm = A @ B then Some (Suc (length seg)) else None
      | None \<Rightarrow> None"
  note m = match_seq_keyword [of A is_space K "B @ [semicolon]" ?s, OF A valid_name_hd [OF L A]]
  have Ks: "semicolon \<notin> set K" using K by (simp add: keyword_def)
  have sw: "starts_with K ?s \<longleftrightarrow> starts_with K seg"
    by (rule starts_with_cut [OF Ks])
  have rhs_iff: "?rhs = (if \<exists>w. stmt_tail K seg = Some ([], w, A @ B) then Some (Suc (length seg)) else None)"
    by (auto split: option.splits)
  show ?thesis
  proof (cases "starts_with K seg")
    case False
    have "\<not> (\<exists>w. stmt_tail K seg = Some ([], w, A @ B))"
      using False by (auto simp: stmt_tail_Nil_iff [OF K])
    then show ?thesis unfolding rhs_iff m using False sw by simp
  next
    case True
    define r where "r = drop (length K) seg"
    define w where "w = takeWhile is_space r"
    define nm where "nm = dropWhile is_space r"
    have segr: "seg = K @ r" using starts_withD [OF True] by (simp add: r_def)
    have rw: "r = w @ nm" by (simp add: w_def nm_def)
    have d1: "drop (length K) ?s = r @ semicolon # rest" by (subst segr) simp
    have tw: "takeWhile is_space (drop (length K) ?s) = w"
      unfolding d1 w_def by (rule takeWhile_stop) simp
    have d2: "drop (length K + length w) ?s = nm @ semicolon # rest"
      by (subst segr, subst rw) simp
    have nms: "semicolon \<notin> set nm" using seg segr rw by auto
    have st: "starts_with (A @ B @ [semicolon]) (drop (length K + length w) ?s) \<longleftrightarrow> nm = A @ B"
      unfolding d2 using starts_with_terminated [OF valid_name_no_semicolon [OF L] nms, of rest]
      by simp
    have ex: "(\<exists>w'. stmt_tail K seg = Some ([], w', A @ B)) \<longleftrightarrow> w \<noteq> [] \<and> nm = A @ B"
    proof
      assume "\<exists>w'. stmt_tail K seg = Some ([], w', A @ B)"
      then obtain w' where "seg = K @ w' @ (A @ B)" "w' \<noteq> []" "list_all is_space w'"
        by (auto simp: stmt_tail_Nil_iff [OF K])
      then have r': "r = w' @ (A @ B)" using segr by simp
      have "takeWhile is_space (w' @ (A @ B)) = w'"
        by (rule takeWhile_all_then) (use \<open>list_all is_space w'\<close> valid_name_hd' [OF L] in auto)
      moreover have "dropWhile is_space (w' @ (A @ B)) = A @ B"
        by (rule dropWhile_all_then) (use \<open>list_all is_space w'\<close> valid_name_hd' [OF L] in auto)
      ultimately show "w \<noteq> [] \<and> nm = A @ B"
        using \<open>w' \<noteq> []\<close> unfolding w_def nm_def r' by simp
    next
      assume h: "w \<noteq> [] \<and> nm = A @ B"
      have "list_all is_space w" unfolding w_def by (auto simp: list_all_iff dest: set_takeWhileD)
      then have "stmt_tail K seg = Some ([], w, A @ B)"
        using h L segr rw by (simp add: stmt_tail_Nil_iff [OF K])
      then show "\<exists>w'. stmt_tail K seg = Some ([], w', A @ B)" by blast
    qed
    have len: "length K + length w + length A + length (B @ [semicolon]) = Suc (length seg)"
      if "nm = A @ B"
      using that by (subst segr, subst rw) simp
    show ?thesis
      unfolding rhs_iff m ex using True sw tw st len by (auto simp: Let_def)
  qed
qed

subsection \<open>One substitution, piece by piece\<close>

lemma re_sub_bol: "re_sub False p R b s = re_sub False p R b' s"
proof (induction s arbitrary: b b' rule: length_induct)
  case (1 s)
  show ?case
  proof (cases s)
    case Nil
    then show ?thesis by (simp add: match_at_def)
  next
    case (Cons c cs)
    show ?thesis
    proof (cases "match_seq p (c # cs)")
      case None
      then show ?thesis using Cons 1 [rule_format, of cs] by (simp add: match_at_def)
    next
      case (Some n)
      have "length (drop n (c # cs)) < length s" if "n \<noteq> 0"
        using that Cons by simp
      then show ?thesis
        using Cons Some 1 [rule_format, of cs] 1 [rule_format, of "drop n (c # cs)"]
        by (simp add: match_at_def del: drop_Suc_Cons)
    qed
  qed
qed

lemma stmt_tail_Nil [simp]: "stmt_tail K [] = None"
  by (simp add: stmt_tail_def)

lemma rewrite_seg_Cons:
  assumes K: "keyword K"
    and nomatch: "\<And>w nm. stmt_tail K (c # cs) = Some ([], w, nm) \<Longrightarrow> g nm = None"
  shows "rewrite_seg K g (c # cs) = c # rewrite_seg K g cs"
proof (cases "stmt_tail K cs")
  case None
  show ?thesis
  proof (cases "stmt_tail K (c # cs)")
    case None
    then show ?thesis using \<open>stmt_tail K cs = None\<close> by (simp add: rewrite_seg_def)
  next
    case (Some t)
    obtain pre w nm where t: "t = (pre, w, nm)" by (cases t)
    have "pre = []" using stmt_tail_Cons_None [OF K None] Some t by simp
    then have "g nm = None" using nomatch Some t by simp
    then show ?thesis using Some t None by (simp add: rewrite_seg_def)
  qed
next
  case (Some t)
  obtain pre w nm where t: "t = (pre, w, nm)" by (cases t)
  have "stmt_tail K (c # cs) = Some (c # pre, w, nm)"
    using stmt_tail_Cons_Some [OF K] Some t by simp
  then show ?thesis using Some t by (simp add: rewrite_seg_def split: option.splits)
qed

lemma re_sub_segment:
  assumes K: "keyword K" and A: "A \<noteq> []" and L: "valid_name (A @ B)"
    and seg: "semicolon \<notin> set seg"
  shows "re_sub False (stmt_pattern K A B) (K @ '' '' @ N @ [semicolon]) b (seg @ semicolon # rest) =
     rewrite_seg K (single_map (A @ B) N) seg @
       semicolon # re_sub False (stmt_pattern K A B) (K @ '' '' @ N @ [semicolon]) True rest"
  using seg
proof (induction seg arbitrary: b)
  case Nil
  have "match_seq (stmt_pattern K A B) ([] @ semicolon # rest) = None"
    unfolding stmt_pattern_def by (subst match_stmt [OF K A L]) auto
  then show ?case
    using re_sub_bol [of _ _ "semicolon = newline" rest True]
    by (simp add: match_at_def rewrite_seg_def)
next
  case (Cons c cs)
  let ?p = "stmt_pattern K A B"
  let ?R = "K @ '' '' @ N @ [semicolon]"
  have sc: "semicolon \<notin> set (c # cs)" "semicolon \<notin> set cs" using Cons.prems by auto
  have m: "match_seq ?p ((c # cs) @ semicolon # rest) =
     (case stmt_tail K (c # cs) of
        Some (pre, w, nm) \<Rightarrow> if pre = [] \<and> nm = A @ B then Some (Suc (length (c # cs))) else None
      | None \<Rightarrow> None)"
    unfolding stmt_pattern_def by (rule match_stmt [OF K A L sc(1)])
  show ?case
  proof (cases "\<exists>w. stmt_tail K (c # cs) = Some ([], w, A @ B)")
    case True
    then obtain w where w: "stmt_tail K (c # cs) = Some ([], w, A @ B)" by blast
    have "match_seq ?p ((c # cs) @ semicolon # rest) = Some (Suc (length (c # cs)))"
      unfolding m using w by simp
    then have "re_sub False ?p ?R b ((c # cs) @ semicolon # rest) =
        ?R @ re_sub False ?p ?R (((c # cs) @ semicolon # rest) ! length (c # cs) = newline) rest"
      by (simp add: match_at_def)
    moreover have "rewrite_seg K (single_map (A @ B) N) (c # cs) = K @ '' '' @ N"
      using w by (simp add: rewrite_seg_def single_map_def)
    ultimately show ?thesis
      using re_sub_bol [of ?p ?R _ rest True] by simp
  next
    case False
    then have "match_seq ?p ((c # cs) @ semicolon # rest) = None"
      unfolding m by (auto split: option.splits)
    then have "re_sub False ?p ?R b ((c # cs) @ semicolon # rest) =
        c # re_sub False ?p ?R (c = newline) (cs @ semicolon # rest)"
      by (simp add: match_at_def)
    moreover have "rewrite_seg K (single_map (A @ B) N) (c # cs) =
        c # rewrite_seg K (single_map (A @ B) N) cs"
      by (rule rewrite_seg_Cons [OF K]) (use False in \<open>auto simp: single_map_def\<close>)
    ultimately show ?thesis using Cons.IH [OF sc(2)] by simp
  qed
qed

lemma starts_with_set: "starts_with l s \<Longrightarrow> set l \<subseteq> set s"
  by (induction l s rule: starts_with.induct) auto

lemma match_needs_semicolon:
  assumes A: "A \<noteq> []" and L: "valid_name (A @ B)" and s: "semicolon \<notin> set s"
  shows "match_seq (stmt_pattern K A B) s = None"
proof -
  have "\<not> starts_with (A @ B @ [semicolon]) (drop n s)" for n
  proof
    assume "starts_with (A @ B @ [semicolon]) (drop n s)"
    from starts_with_set [OF this] have "semicolon \<in> set (drop n s)" by auto
    then show False using s by (auto dest: in_set_dropD)
  qed
  then show ?thesis
    unfolding stmt_pattern_def match_seq_keyword [of A is_space K, OF A valid_name_hd [OF L A]]
    by (simp add: Let_def)
qed

lemma re_sub_no_semicolon:
  assumes A: "A \<noteq> []" and L: "valid_name (A @ B)" and s: "semicolon \<notin> set s"
  shows "re_sub False (stmt_pattern K A B) R b s = s"
  using s
proof (induction s arbitrary: b)
  case Nil
  then show ?case using match_needs_semicolon [OF A L, of "[]"] by (simp add: match_at_def)
next
  case (Cons c cs)
  then show ?case using match_needs_semicolon [OF A L, of "c # cs"] by (simp add: match_at_def)
qed

lemma rewrite_text_no_semicolon: "semicolon \<notin> set s \<Longrightarrow> rewrite_text K g s = s"
proof -
  assume "semicolon \<notin> set s"
  then have d: "dropWhile not_semicolon s = []" by (auto simp: not_semicolon_def)
  show ?thesis by (subst rewrite_text.simps, subst d) simp
qed

lemma rewrite_text_segment:
  assumes "semicolon \<notin> set seg"
  shows "rewrite_text K g (seg @ semicolon # rest) =
     rewrite_seg K g seg @ semicolon # rewrite_text K g rest"
proof -
  have "list_all not_semicolon seg" using assms by (auto simp: list_all_iff not_semicolon_def)
  then have "takeWhile not_semicolon (seg @ semicolon # rest) = seg"
    "dropWhile not_semicolon (seg @ semicolon # rest) = semicolon # rest"
    using takeWhile_all_then [of not_semicolon seg "semicolon # rest"]
      dropWhile_all_then [of not_semicolon seg "semicolon # rest"]
    by (auto simp: not_semicolon_def)
  then show ?thesis by (subst rewrite_text.simps) (simp only: list.case)
qed

lemma split_at_semicolon:
  assumes "semicolon \<in> set s"
  obtains seg rest where "s = seg @ semicolon # rest" "semicolon \<notin> set seg"
  using assms by (meson split_list_first)

lemma re_sub_rewrite_text:
  assumes K: "keyword K" and A: "A \<noteq> []" and L: "valid_name (A @ B)"
  shows "re_sub False (stmt_pattern K A B) (K @ '' '' @ N @ [semicolon]) b s =
     rewrite_text K (single_map (A @ B) N) s"
proof (induction s arbitrary: b rule: length_induct)
  case (1 s)
  show ?case
  proof (cases "semicolon \<in> set s")
    case False
    then show ?thesis
      using re_sub_no_semicolon [OF A L False] rewrite_text_no_semicolon [OF False] by simp
  next
    case True
    then obtain seg rest where s: "s = seg @ semicolon # rest" and seg: "semicolon \<notin> set seg"
      by (rule split_at_semicolon)
    have "length rest < length s" using s by simp
    then show ?thesis
      unfolding s re_sub_segment [OF K A L seg] rewrite_text_segment [OF seg]
      using 1 s by simp
  qed
qed

subsection \<open>Substitutions in sequence\<close>

lemma space_is_space [simp]: "is_space CHR '' ''"
  by (simp add: is_space_def whitespace_def)

lemma stmt_tail_normal:
  "keyword K \<Longrightarrow> valid_name new \<Longrightarrow> stmt_tail K (pre @ K @ '' '' @ new) = Some (pre, '' '', new)"
  using stmt_tail_intro [of K "'' ''" new pre] by simp

lemma rewrite_seg_comp:
  assumes K: "keyword K" and g1: "\<And>nm new. g1 nm = Some new \<Longrightarrow> valid_name new"
  shows "rewrite_seg K g2 (rewrite_seg K g1 seg) = rewrite_seg K (then_map g1 g2) seg"
proof (cases "stmt_tail K seg")
  case None
  then show ?thesis by (simp add: rewrite_seg_def)
next
  case (Some t)
  obtain pre w nm where t: "t = (pre, w, nm)" by (cases t)
  show ?thesis
  proof (cases "g1 nm")
    case None
    then show ?thesis using Some t by (simp add: rewrite_seg_def then_map_def)
  next
    case (Some new)
    have "stmt_tail K (pre @ K @ '' '' @ new) = Some (pre, '' '', new)"
      by (rule stmt_tail_normal [OF K g1 [OF Some]])
    then show ?thesis
      using Some t \<open>stmt_tail K seg = Some t\<close>
      by (simp add: rewrite_seg_def then_map_def split: option.splits)
  qed
qed

lemma rewrite_seg_no_semicolon:
  assumes K: "keyword K" and g: "\<And>nm new. g nm = Some new \<Longrightarrow> valid_name new"
    and seg: "semicolon \<notin> set seg"
  shows "semicolon \<notin> set (rewrite_seg K g seg)"
proof (cases "stmt_tail K seg")
  case None
  then show ?thesis using seg by (simp add: rewrite_seg_def)
next
  case (Some t)
  obtain pre w nm where t: "t = (pre, w, nm)" by (cases t)
  from stmt_tail_elim [of K seg pre w nm] Some t have "seg = pre @ K @ w @ nm" by simp
  then have "semicolon \<notin> set pre" using seg by auto
  moreover have "semicolon \<notin> set K" using K by (simp add: keyword_def)
  moreover have "semicolon \<noteq> CHR '' ''" by (simp add: semicolon_def)
  ultimately show ?thesis
    using Some t seg valid_name_no_semicolon [OF g]
    by (auto simp: rewrite_seg_def split: option.splits)
qed

lemma rewrite_text_comp:
  assumes K: "keyword K" and g1: "\<And>nm new. g1 nm = Some new \<Longrightarrow> valid_name new"
  shows "rewrite_text K g2 (rewrite_text K g1 s) = rewrite_text K (then_map g1 g2) s"
proof (induction s rule: length_induct)
  case (1 s)
  show ?case
  proof (cases "semicolon \<in> set s")
    case False
    then show ?thesis by (simp add: rewrite_text_no_semicolon)
  next
    case True
    then obtain seg rest where s: "s = seg @ semicolon # rest" and seg: "semicolon \<notin> set seg"
      by (rule split_at_semicolon)
    have "length rest < length s" using s by simp
    then have IH: "rewrite_text K g2 (rewrite_text K g1 rest) = rewrite_text K (then_map g1 g2) rest"
      using 1 by simp
    have ns: "semicolon \<notin> set (rewrite_seg K g1 seg)"
      by (rule rewrite_seg_no_semicolon [OF K g1 seg])
    have "rewrite_text K g2 (rewrite_text K g1 s) =
        rewrite_seg K g2 (rewrite_seg K g1 seg) @
          semicolon # rewrite_text K g2 (rewrite_text K g1 rest)"
      by (simp only: s rewrite_text_segment [OF seg] rewrite_text_segment [OF ns])
    also have "\<dots> = rewrite_seg K (then_map g1 g2) seg @
          semicolon # rewrite_text K (then_map g1 g2) rest"
      by (simp only: IH rewrite_seg_comp [OF K g1])
    also have "\<dots> = rewrite_text K (then_map g1 g2) s"
      by (simp only: s rewrite_text_segment [OF seg])
    finally show ?thesis .
  qed
qed

lemma rewrite_seg_id [simp]: "rewrite_seg K (\<lambda>nm. None) seg = seg"
  by (simp add: rewrite_seg_def split: option.splits)

lemma rewrite_text_id [simp]: "rewrite_text K (\<lambda>nm. None) s = s"
proof (induction s rule: length_induct)
  case (1 s)
  show ?case
  proof (cases "semicolon \<in> set s")
    case False
    then show ?thesis by (simp add: rewrite_text_no_semicolon)
  next
    case True
    then obtain seg rest where s: "s = seg @ semicolon # rest" and seg: "semicolon \<notin> set seg"
      by (rule split_at_semicolon)
    then show ?thesis using 1 by (simp add: rewrite_text_segment)
  qed
qed

lemma keyword_import [simp]: "keyword ''import''"
  by (simp add: keyword_def is_space_def whitespace_def semicolon_def)

lemma apply_mapping_rewrite:
  assumes "good_entry e"
  shows "apply_mapping s e = rewrite_text ''import'' (chain (entry_names e)) s"
proof -
  obtain old new where e: "e = (old, new)" by (cases e)
  let ?op = "rsplit_dot_head old" and ?np = "rsplit_dot_head new"
  from assms e have v: "valid_name old" "valid_name new" "?op \<noteq> []"
    "valid_name (?op @ ''.*'')" "valid_name (?np @ ''.*'')"
    by (auto simp: good_entry_def)
  have old: "old \<noteq> []" using v(1) by (auto simp: valid_name_def)
  have p1: "import_pattern old = stmt_pattern ''import'' old []"
    by (simp add: import_pattern_def stmt_pattern_def semicolon_def)
  have p2: "wildcard_pattern ?op = stmt_pattern ''import'' ?op ''.*''"
    by (simp add: wildcard_pattern_def stmt_pattern_def semicolon_def)
  have r1: "''import '' @ new @ '';'' = ''import'' @ '' '' @ new @ [semicolon]"
    by (simp add: semicolon_def)
  have r2: "''import '' @ ?np @ ''.*;'' = ''import'' @ '' '' @ (?np @ ''.*'') @ [semicolon]"
    by (simp add: semicolon_def)
  have 1: "re_sub False (import_pattern old) (''import '' @ new @ '';'') True s =
      rewrite_text ''import'' (single_map old new) s" for s
    unfolding p1 r1 using re_sub_rewrite_text [of "''import''" old "[]" new True s] old v(1)
    by simp
  have 2: "re_sub False (wildcard_pattern ?op) (''import '' @ ?np @ ''.*;'') True s =
      rewrite_text ''import'' (single_map (?op @ ''.*'') (?np @ ''.*'')) s" for s
    unfolding p2 r2
    using re_sub_rewrite_text [of "''import''" ?op "''.*''" "?np @ ''.*''" True s] v(3,4)
    by simp
  have c: "chain (entry_names e) =
      then_map (single_map old new) (single_map (?op @ ''.*'') (?np @ ''.*''))"
    by (rule ext) (simp add: entry_names_def e then_map_def split: option.splits)
  have "apply_mapping s e =
      rewrite_text ''import'' (single_map (?op @ ''.*'') (?np @ ''.*''))
        (rewrite_text ''import'' (single_map old new) s)"
    by (simp only: apply_mapping_def Let_def e fst_conv snd_conv 1 2)
  also have "\<dots> = rewrite_text ''import'' (chain (entry_names e)) s"
    unfolding c
    by (rule rewrite_text_comp) (use v(2) in \<open>auto simp: single_map_def split: if_splits\<close>)
  finally show ?thesis .
qed

lemma chain_append:
  "chain (t1 @ t2) = (\<lambda>nm. foldr (\<lambda>(old, new) g. then_map (single_map old new) g) t1 (chain t2) nm)"
  by (induction t1) auto

lemma chain_valid:
  "list_all (\<lambda>(old, new). valid_name new) tbl \<Longrightarrow> chain tbl nm = Some new \<Longrightarrow> valid_name new"
proof (induction tbl arbitrary: nm new)
  case Nil
  then show ?case by simp
next
  case (Cons a tbl)
  obtain k v where a: "a = (k, v)" by (cases a)
  from Cons.prems a have v: "valid_name v" and rest: "list_all (\<lambda>(old, new). valid_name new) tbl"
    by auto
  from Cons.prems(2) a show ?case
    using v Cons.IH [OF rest]
    by (auto simp: then_map_def single_map_def split: option.splits if_splits)
qed

lemma then_map_assoc: "then_map (then_map g1 g2) g3 = then_map g1 (then_map g2 g3)"
  by (rule ext) (simp add: then_map_def split: option.splits)

lemma then_map_empty [simp]: "then_map g (\<lambda>nm. None) = g" "then_map (\<lambda>nm. None) g = g"
  by (rule ext, simp add: then_map_def split: option.splits)+

lemma chain_app: "chain (t1 @ t2) = then_map (chain t1) (chain t2)"
  by (induction t1) (auto simp: then_map_assoc)

lemma foldl_apply_mapping:
  assumes "list_all good_entry T"
  shows "foldl apply_mapping s T = rewrite_text ''import'' (chain (concat (map entry_names T))) s"
  using assms
proof (induction T arbitrary: s)
  case Nil
  then show ?case by simp
next
  case (Cons e T)
  then have e: "good_entry e" and T: "list_all good_entry T" by auto
  have val: "chain (entry_names e) nm = Some new \<Longrightarrow> valid_name new" for nm new
    by (rule chain_valid [of "entry_names e"]) (use e in \<open>auto simp: entry_names_def good_entry_def\<close>)
  have "foldl apply_mapping s (e # T) =
      rewrite_text ''import'' (chain (concat (map entry_names T)))
        (rewrite_text ''import'' (chain (entry_names e)) s)"
    using Cons.IH [OF T] apply_mapping_rewrite [OF e] by simp
  also have "\<dots> = rewrite_text ''import''
      (then_map (chain (entry_names e)) (chain (concat (map entry_names T)))) s"
    by (rule rewrite_text_comp) (use val in auto)
  finally show ?case by (simp add: chain_app)
qed

lemma chain_map_of:
  assumes "\<And>v. v \<in> snd ` set tbl \<Longrightarrow> v \<notin> fst ` set tbl"
  shows "chain tbl = map_of tbl"
  using assms
proof (induction tbl)
  case Nil
  then show ?case by auto
next
  case (Cons a tbl)
  obtain k v where a: "a = (k, v)" by (cases a)
  have IH: "chain tbl = map_of tbl" using Cons by auto
  have "v \<notin> fst ` set tbl" using Cons.prems [of v] a by auto
  then have "map_of tbl v = None" by (simp add: map_of_eq_None_iff)
  then show ?case
    unfolding a by (auto simp: IH then_map_def single_map_def fun_eq_iff)
qed

subsection \<open>The entries of the table\<close>

lemma name_char_alphabet:
  "list_all name_char ''abcdefghijklmnopqrstuvwxyzABCDEFGHIJKLMNOPQRSTUVWXYZ0123456789_.*''"
  by (simp add: name_char_def is_space_def whitespace_def semicolon_def)

lemmas name_chars = name_char_alphabet [simplified]

lemma ident_char_alphabet:
  "list_all ident_char ''abcdefghijklmnopqrstuvwxyzABCDEFGHIJKLMNOPQRSTUVWXYZ0123456789_.''"
  by (simp add: ident_char_def name_chars)

lemmas ident_chars = ident_char_alphabet [simplified]

lemma list_all_ConsI: "P x \<Longrightarrow> list_all P xs \<Longrightarrow> list_all P (x # xs)"
  by simp

lemma list_all_NilI: "list_all P []"
  by simp

lemma entry_ok_all: "list_all entry_ok IMPORT_MAPPINGS"
  unfolding IMPORT_MAPPINGS_def
  by (intro list_all_ConsI list_all_NilI; simp add: entry_ok_def new_name_def name_chars ident_chars)

lemma distinct_old_imports: "distinct (map fst IMPORT_MAPPINGS)"
  unfolding IMPORT_MAPPINGS_def by simp

lemma rsplit_dot_head_split:
  assumes "s = a @ CHR ''.'' # b" "CHR ''.'' \<notin> set b"
  shows "rsplit_dot_head s = a"
proof -
  have "dropWhile (\<lambda>c. c \<noteq> CHR ''.'') (rev b @ CHR ''.'' # rev a) = CHR ''.'' # rev a"
    using dropWhile_all_then [of "\<lambda>c. c \<noteq> CHR ''.''" "rev b" "CHR ''.'' # rev a"] assms(2)
    by (auto simp: list_all_iff)
  then show ?thesis using assms(1) by (simp add: rsplit_dot_head_def)
qed

lemma rsplit_dot_head_cases:
  assumes "CHR ''.'' \<in> set s"
  obtains a b where "s = a @ CHR ''.'' # b" "CHR ''.'' \<notin> set b" "rsplit_dot_head s = a"
proof -
  from split_list_last [OF assms] obtain a b where "s = a @ CHR ''.'' # b" "CHR ''.'' \<notin> set b"
    by blast
  then show ?thesis using rsplit_dot_head_split that by blast
qed

lemma starts_with_wildcard:
  assumes "starts_with (P @ ''.'') (a @ CHR ''.'' # b)" "CHR ''.'' \<notin> set b"
  shows "starts_with (P @ ''.'') (a @ ''.*'')"
  using assms
proof (induction P arbitrary: a)
  case Nil
  then show ?case by (cases a) auto
next
  case (Cons p P)
  show ?case
  proof (cases a)
    case Nil
    then have "starts_with (P @ ''.'') b" using Cons.prems by simp
    from starts_with_set [OF this] have "CHR ''.'' \<in> set b" by auto
    then show ?thesis using Cons.prems by simp
  next
    case (Cons x a')
    then show ?thesis using Cons.IH [of a'] Cons.prems by simp
  qed
qed

lemma starts_with_wildcard_back:
  assumes "starts_with P (a @ ''.*'')" "CHR ''*'' \<notin> set P"
  shows "starts_with P (a @ CHR ''.'' # b)"
  using assms
proof (induction P arbitrary: a)
  case Nil
  then show ?case by simp
next
  case (Cons p P)
  show ?case
  proof (cases a)
    case Nil
    then show ?thesis using Cons.prems by (cases P) auto
  next
    case (Cons x a')
    then show ?thesis using Cons.IH [of a'] Cons.prems by simp
  qed
qed

lemma new_name_wildcard:
  assumes "s = a @ CHR ''.'' # b" "CHR ''.'' \<notin> set b"
  shows "new_name (a @ ''.*'') \<longleftrightarrow> new_name s"
proof -
  have 1: "starts_with (P @ ''.'') (a @ ''.*'') \<longleftrightarrow> starts_with (P @ ''.'') s"
    if "CHR ''*'' \<notin> set P" for P
    using starts_with_wildcard [of P a b] starts_with_wildcard_back [of "P @ ''.''" a b] assms that
    by auto
  show ?thesis
    unfolding new_name_def
    using 1 [of "''com.demo.auth.modules''"] 1 [of "''com.demo.auth.common''"] by simp
qed

lemma valid_wildcard:
  assumes "list_all name_char a" shows "valid_name (a @ ''.*'')"
  using assms name_chars by (simp add: valid_name_def)

lemma entry_ok_good:
  assumes "entry_ok e"
  shows "good_entry e \<and> new_name (rsplit_dot_head (snd e) @ ''.*'') \<and>
     \<not> new_name (rsplit_dot_head (fst e) @ ''.*'')"
proof -
  obtain old new where e: "e = (old, new)" by (cases e)
  from assms e have o: "list_all name_char old" "starts_with ''com.demo.auth.'' old" "\<not> new_name old"
    and n: "list_all name_char new" "new_name new"
    by (auto simp: entry_ok_def ident_char_def list_all_iff)
  from starts_with_set [OF o(2)] have od: "CHR ''.'' \<in> set old" by auto
  have nd: "CHR ''.'' \<in> set new"
    using n(2) unfolding new_name_def by (auto dest!: starts_with_set)
  from od obtain a b where a: "old = a @ CHR ''.'' # b" "CHR ''.'' \<notin> set b" "rsplit_dot_head old = a"
    by (rule rsplit_dot_head_cases)
  from nd obtain a' b' where a': "new = a' @ CHR ''.'' # b'" "CHR ''.'' \<notin> set b'"
    "rsplit_dot_head new = a'"
    by (rule rsplit_dot_head_cases)
  have "a \<noteq> []" using a(1) o(2) by (cases a) auto
  moreover have "old \<noteq> []" "new \<noteq> []" using a(1) a'(1) by auto
  moreover have "list_all name_char a" "list_all name_char a'" using o(1) n(1) a(1) a'(1) by auto
  ultimately show ?thesis
    using o n e a(3) a'(3) new_name_wildcard [OF a(1,2)] new_name_wildcard [OF a'(1,2)]
    by (simp add: good_entry_def valid_name_def name_chars)
qed

lemma good_table: "list_all good_entry IMPORT_MAPPINGS"
  using entry_ok_all entry_ok_good by (auto simp: list_all_iff)

lemma name_table_entry:
  assumes "(k, v) \<in> set name_table"
  shows "new_name v \<and> \<not> new_name k \<and> valid_name v \<and> valid_name k"
proof -
  from assms obtain e where e: "e \<in> set IMPORT_MAPPINGS" "(k, v) \<in> set (entry_names e)"
    by (auto simp: name_table_def)
  then have "entry_ok e" using entry_ok_all by (auto simp: list_all_iff)
  from entry_ok_good [OF this] this e(2) show ?thesis
    by (auto simp: entry_names_def good_entry_def entry_ok_def)
qed

lemma name_table_fresh: "v \<in> snd ` set name_table \<Longrightarrow> v \<notin> fst ` set name_table"
proof
  assume "v \<in> snd ` set name_table"
  then obtain k where "(k, v) \<in> set name_table" by auto
  then have 1: "new_name v" using name_table_entry by blast
  assume "v \<in> fst ` set name_table"
  then obtain v' where "(v, v') \<in> set name_table" by auto
  then have "\<not> new_name v" using name_table_entry by blast
  then show False using 1 by simp
qed

lemma update_imports_text_rewrite:
  "update_imports_text s = rewrite_text ''import'' (map_of name_table) s"
  unfolding update_imports_text_def foldl_apply_mapping [OF good_table]
  using chain_map_of [of name_table] name_table_fresh by (simp add: name_table_def)

lemma map_of_name_table_valid: "map_of name_table nm = Some new \<Longrightarrow> valid_name new"
  using name_table_entry by (auto dest: map_of_SomeD)

lemma map_of_name_table_fresh: "map_of name_table nm = Some new \<Longrightarrow> map_of name_table new = None"
proof -
  assume "map_of name_table nm = Some new"
  then have "new \<in> snd ` set name_table" by (force dest: map_of_SomeD)
  then show ?thesis using name_table_fresh by (simp add: map_of_eq_None_iff)
qed

subsection \<open>Import statements in a text\<close>

lemma rewrite_seg_stmt:
  assumes K: "keyword K" and w: "w \<noteq> []" "list_all is_space w" and nm: "valid_name nm"
  shows "rewrite_seg K g (pre @ K @ w @ nm) =
     pre @ (case g nm of None \<Rightarrow> K @ w @ nm | Some new \<Rightarrow> K @ '' '' @ new)"
  using stmt_tail_intro [OF K w nm, of pre] by (simp add: rewrite_seg_def split: option.splits)

lemma space_not_semicolon: "list_all is_space w \<Longrightarrow> semicolon \<notin> set w"
  by (auto simp: list_all_iff)

lemma rewrite_text_stmt:
  assumes K: "keyword K" and w: "w \<noteq> []" "list_all is_space w" and nm: "valid_name nm"
  shows "rewrite_text K g (a @ K @ w @ nm @ semicolon # b) =
     rewrite_text K g a @ (case g nm of None \<Rightarrow> K @ w @ nm | Some new \<Rightarrow> K @ '' '' @ new) @
       semicolon # rewrite_text K g b"
proof (induction a rule: length_induct)
  case (1 a)
  have Ks: "semicolon \<notin> set K" using K by (simp add: keyword_def)
  show ?case
  proof (cases "semicolon \<in> set a")
    case False
    then have seg: "semicolon \<notin> set (a @ K @ w @ nm)"
      using Ks space_not_semicolon [OF w(2)] valid_name_no_semicolon [OF nm] by simp
    have "rewrite_text K g ((a @ K @ w @ nm) @ semicolon # b) =
        rewrite_seg K g (a @ K @ w @ nm) @ semicolon # rewrite_text K g b"
      by (rule rewrite_text_segment [OF seg])
    then show ?thesis
      using rewrite_seg_stmt [OF K w nm, of g a] rewrite_text_no_semicolon [OF False, of K g]
      by simp
  next
    case True
    then obtain seg rest where a: "a = seg @ semicolon # rest" and seg: "semicolon \<notin> set seg"
      by (rule split_at_semicolon)
    have "length rest < length a" using a by simp
    then have IH: "rewrite_text K g (rest @ K @ w @ nm @ semicolon # b) =
        rewrite_text K g rest @ (case g nm of None \<Rightarrow> K @ w @ nm | Some new \<Rightarrow> K @ '' '' @ new) @
          semicolon # rewrite_text K g b"
      using 1 by blast
    have "rewrite_text K g (seg @ semicolon # (rest @ K @ w @ nm @ semicolon # b)) =
        rewrite_seg K g seg @ semicolon # rewrite_text K g (rest @ K @ w @ nm @ semicolon # b)"
      by (rule rewrite_text_segment [OF seg])
    then show ?thesis
      unfolding a using IH rewrite_text_segment [OF seg, of K g rest] by simp
  qed
qed

lemma update_imports_text_stmt:
  assumes "w \<noteq> []" "list_all is_space w" "map_of name_table nm = Some new"
  shows "update_imports_text (a @ ''import'' @ w @ nm @ '';'' @ b) =
     update_imports_text a @ ''import '' @ new @ '';'' @ update_imports_text b"
proof -
  from assms(3) have "(nm, new) \<in> set name_table" by (rule map_of_SomeD)
  then have nm: "valid_name nm" using name_table_entry by blast
  have s: "'';'' @ b = semicolon # b" for b by (simp add: semicolon_def)
  show ?thesis
    unfolding update_imports_text_rewrite s
    using rewrite_text_stmt [OF keyword_import assms(1,2) nm, of "map_of name_table" a b] assms(3)
    by simp
qed

lemma find_distinct:
  "distinct (map fst T) \<Longrightarrow> (k, v) \<in> set T \<Longrightarrow> find (\<lambda>e. fst e = k) T = Some (k, v)"
  by (induction T) (auto simp: rev_image_eqI)

lemma map_of_entry_names:
  "map_of (concat (map entry_names T)) k =
     (case find (\<lambda>e. fst e = k \<or> rsplit_dot_head (fst e) @ ''.*'' = k) T of
        None \<Rightarrow> None
      | Some e \<Rightarrow> if fst e = k then Some (snd e) else Some (rsplit_dot_head (snd e) @ ''.*''))"
  by (induction T) (auto simp: entry_names_def)

lemma find_cong_set: "(\<And>x. x \<in> set xs \<Longrightarrow> P x = Q x) \<Longrightarrow> find P xs = find Q xs"
  by (induction xs) auto

lemma entry_no_star:
  assumes "e \<in> set IMPORT_MAPPINGS" shows "CHR ''*'' \<notin> set (fst e)"
proof -
  from assms entry_ok_all have "list_all ident_char (fst e)"
    by (auto simp: list_all_iff entry_ok_def)
  then show ?thesis by (auto simp: list_all_iff ident_char_def)
qed

lemma lookup_exact:
  assumes "(old, new) \<in> set IMPORT_MAPPINGS"
  shows "map_of name_table old = Some new"
proof -
  have ns: "CHR ''*'' \<notin> set old" using entry_no_star [OF assms] by simp
  have "find (\<lambda>e. fst e = old \<or> rsplit_dot_head (fst e) @ ''.*'' = old) IMPORT_MAPPINGS =
      find (\<lambda>e. fst e = old) IMPORT_MAPPINGS"
    by (rule find_cong_set) (use ns in auto)
  also have "\<dots> = Some (old, new)"
    by (rule find_distinct [OF distinct_old_imports assms])
  finally show ?thesis
    unfolding name_table_def map_of_entry_names by simp
qed

lemma lookup_wildcard:
  assumes "first_with_package p = Some e"
  shows "map_of name_table (p @ ''.*'') = Some (rsplit_dot_head (snd e) @ ''.*'')"
proof -
  have "find (\<lambda>e. fst e = p @ ''.*'' \<or> rsplit_dot_head (fst e) @ ''.*'' = p @ ''.*'') IMPORT_MAPPINGS =
      find (\<lambda>e. rsplit_dot_head (fst e) = p) IMPORT_MAPPINGS"
  proof (rule find_cong_set)
    fix x assume "x \<in> set IMPORT_MAPPINGS"
    then have "CHR ''*'' \<notin> set (fst x)" by (rule entry_no_star)
    then have "fst x \<noteq> p @ ''.*''" by auto
    then show "(fst x = p @ ''.*'' \<or> rsplit_dot_head (fst x) @ ''.*'' = p @ ''.*'') =
        (rsplit_dot_head (fst x) = p)" by simp
  qed
  then have f: "find (\<lambda>e. fst e = p @ ''.*'' \<or> rsplit_dot_head (fst e) @ ''.*'' = p @ ''.*'')
      IMPORT_MAPPINGS = Some e"
    using assms by (simp add: first_with_package_def)
  have "e \<in> set IMPORT_MAPPINGS"
    using assms unfolding first_with_package_def by (auto simp: find_Some_iff)
  then have "fst e \<noteq> p @ ''.*''" using entry_no_star by fastforce
  then show ?thesis
    unfolding name_table_def map_of_entry_names f by simp
qed

lemma match_not_replacement:
  assumes A: "A \<noteq> []" and L: "valid_name (A @ B)" and N: "valid_name N" and ne: "N \<noteq> A @ B"
    and m: "match_seq (stmt_pattern K A B) t = Some n"
  shows "0 < n \<and> \<not> starts_with (K @ '' '' @ N @ [semicolon]) t"
proof -
  let ?k = "length (takeWhile is_space (drop (length K) t))"
  from m have k: "?k \<noteq> 0" and st: "starts_with (A @ B @ [semicolon]) (drop (length K + ?k) t)"
    and n: "n = length K + ?k + length A + length (B @ [semicolon])"
    unfolding stmt_pattern_def match_seq_keyword [of A is_space K, OF A valid_name_hd [OF L A]]
    by (auto simp: Let_def split: if_splits)
  have "\<not> starts_with (K @ '' '' @ N @ [semicolon]) t"
  proof
    assume "starts_with (K @ '' '' @ N @ [semicolon]) t"
    from starts_withD [OF this] obtain r where t: "t = K @ '' '' @ N @ semicolon # r" by auto
    have "takeWhile is_space ('' '' @ N @ semicolon # r) = '' ''"
      by (rule takeWhile_all_then) (use valid_name_hd' [OF N] N in \<open>auto simp: valid_name_def\<close>)
    then have "?k = 1" unfolding t by simp
    then have "starts_with ((A @ B) @ [semicolon]) (N @ semicolon # r)"
      using st unfolding t by simp
    then have "N = A @ B"
      using starts_with_terminated [OF valid_name_no_semicolon [OF L] valid_name_no_semicolon [OF N]]
      by simp
    then show False using ne by simp
  qed
  then show ?thesis using n k by simp
qed

lemma re_sub_fixed_no_match:
  assumes R: "\<And>t n. match_seq p t = Some n \<Longrightarrow> 0 < n \<and> \<not> starts_with R t"
    and fp: "re_sub False p R b t = t"
  shows "match_seq p (drop k t) = None"
  using fp
proof (induction t arbitrary: b k)
  case Nil
  show ?case
  proof (cases "match_seq p []")
    case None
    then show ?thesis by simp
  next
    case (Some n)
    then have "R = []" using Nil by (simp add: match_at_def)
    then show ?thesis using R [OF Some] by simp
  qed
next
  case (Cons c cs)
  have h0: "match_seq p (c # cs) = None"
  proof (cases "match_seq p (c # cs)")
    case None
    then show ?thesis .
  next
    case (Some n)
    from R [OF Some] have n: "0 < n" and ns: "\<not> starts_with R (c # cs)" by auto
    from Cons.prems Some n have "R @ re_sub False p R ((c # cs) ! (n - 1) = newline) (drop n (c # cs)) = c # cs"
      by (simp add: match_at_def del: drop_Suc_Cons)
    then have "starts_with R (c # cs)"
      by (metis starts_with_append_same)
    then show ?thesis using ns by simp
  qed
  then have "re_sub False p R (c = newline) cs = cs"
    using Cons.prems by (simp add: match_at_def)
  from Cons.IH [OF this] h0 show ?case by (cases k) auto
qed

lemma no_old_statement_left:
  assumes A: "A \<noteq> []" and l: "map_of name_table (A @ B) = Some new"
  shows "match_seq (stmt_pattern ''import'' A B) (drop k (update_imports_text s)) = None"
proof -
  let ?G = "map_of name_table"
  let ?out = "update_imports_text s"
  from l have e: "(A @ B, new) \<in> set name_table" by (rule map_of_SomeD)
  then have L: "valid_name (A @ B)" and N: "valid_name new" using name_table_entry by blast+
  have ne: "new \<noteq> A @ B" using map_of_name_table_fresh [OF l] l by auto
  have t: "then_map ?G (single_map (A @ B) new) = ?G"
  proof (rule ext)
    fix nm
    show "then_map ?G (single_map (A @ B) new) nm = ?G nm"
    proof (cases "?G nm")
      case None
      then have "nm \<noteq> A @ B" using l by auto
      then show ?thesis using None by (simp add: then_map_def single_map_def)
    next
      case (Some v)
      then have "v \<noteq> A @ B" using map_of_name_table_fresh [OF Some] l by auto
      then show ?thesis using Some by (simp add: then_map_def single_map_def)
    qed
  qed
  have "re_sub False (stmt_pattern ''import'' A B) (''import'' @ '' '' @ new @ [semicolon]) True ?out =
      rewrite_text ''import'' (single_map (A @ B) new) ?out"
    by (rule re_sub_rewrite_text [OF keyword_import A L])
  also have "\<dots> = rewrite_text ''import'' (then_map ?G (single_map (A @ B) new)) s"
    unfolding update_imports_text_rewrite
    by (rule rewrite_text_comp [OF keyword_import]) (rule map_of_name_table_valid)
  also have "\<dots> = ?out" unfolding t update_imports_text_rewrite ..
  finally have fp: "re_sub False (stmt_pattern ''import'' A B)
      (''import'' @ '' '' @ new @ [semicolon]) True ?out = ?out" .
  show ?thesis
    by (rule re_sub_fixed_no_match [OF _ fp]) (rule match_not_replacement [OF A L N ne])
qed

lemma import_pattern_stmt: "import_pattern old = stmt_pattern ''import'' old []"
  by (simp add: import_pattern_def stmt_pattern_def semicolon_def)

lemma wildcard_pattern_stmt: "wildcard_pattern p = stmt_pattern ''import'' p ''.*''"
  by (simp add: wildcard_pattern_def stmt_pattern_def semicolon_def)

lemma update_imports_text_Nil [simp]: "update_imports_text [] = []"
  by (simp add: update_imports_text_rewrite rewrite_text_no_semicolon)

lemma first_with_package_entity:
  "first_with_package ''com.demo.auth.entity'' =
     Some (''com.demo.auth.entity.User'', ''com.demo.auth.modules.user.entity.User'')"
  unfolding first_with_package_def IMPORT_MAPPINGS_def
  by (simp add: rsplit_dot_head_def)

lemma rsplit_user_entity:
  "rsplit_dot_head ''com.demo.auth.modules.user.entity.User'' = ''com.demo.auth.modules.user.entity''"
  by (simp add: rsplit_dot_head_def)

lemma role_entry:
  "(''com.demo.auth.entity.Role'', ''com.demo.auth.modules.role.entity.Role'') \<in> set IMPORT_MAPPINGS"
  unfolding IMPORT_MAPPINGS_def by simp

lemma rsplit_role_entity:
  "rsplit_dot_head ''com.demo.auth.entity.Role'' = ''com.demo.auth.entity''"
  by (simp add: rsplit_dot_head_def)

lemma wildcard_entity_rewritten:
  "update_imports_text ''import com.demo.auth.entity.*;'' = ''import com.demo.auth.modules.user.entity.*;''"
  using update_imports_text_stmt [of "'' ''" "''com.demo.auth.entity.*''"
      "''com.demo.auth.modules.user.entity.*''" "[]" "[]"]
    lookup_wildcard [OF first_with_package_entity]
  by (simp add: rsplit_user_entity)

subsection \<open>File operations\<close>

lemma print_fields [simp]:
  "files (print m w) = files w" "dirs (print m w) = dirs w"
  "mkdir_fails (print m w) = mkdir_fails w" "copy_fails (print m w) = copy_fails w"
  "read_fails (print m w) = read_fails w" "write_fails (print m w) = write_fails w"
  "console (print m w) = console w @ [m]"
  by (simp_all add: print_def)

lemma ancestors_length: "q \<in> set (ancestors d) \<Longrightarrow> length q \<le> length d"
  by (auto simp: ancestors_def)

lemma mkdir_parents_Inr:
  assumes "mkdir_parents d w = Inr w1"
  shows "files w1 = files w" "console w1 = console w"
    "mkdir_fails w1 = mkdir_fails w" "copy_fails w1 = copy_fails w"
    "read_fails w1 = read_fails w" "write_fails w1 = write_fails w"
    "set (dirs w1) = set (dirs w) \<union> set (ancestors d)"
  using assms by (auto simp: mkdir_parents_def split: if_splits)

lemma copy2_Inr:
  assumes "copy2 src dest w = Inr w2"
  obtains f where "map_of (files w) src = Some f"
    "files w2 = AList.update (if dest \<in> set (dirs w) then dest @ [last src] else dest) f (files w)"
    "dirs w2 = dirs w" "console w2 = console w"
    "mkdir_fails w2 = mkdir_fails w" "copy_fails w2 = copy_fails w"
    "read_fails w2 = read_fails w" "write_fails w2 = write_fails w"
  using assms by (auto simp: copy2_def Let_def split: option.splits if_splits)

lemma write_text_Inr:
  assumes "write_text p data w = Inr w1"
  shows "map_of (files w1) q = (if q = p then map_of (files w1) p else map_of (files w) q)"
    "dirs w1 = dirs w" "console w1 = console w"
    "mkdir_fails w1 = mkdir_fails w" "copy_fails w1 = copy_fails w"
    "read_fails w1 = read_fails w" "write_fails w1 = write_fails w"
  using assms by (auto simp: write_text_def update_conv' split: if_splits)



text \<open>
  C7. For a file that is read, with \<open>t\<close> its text as \<open>read_text\<close> gives it: when the
  substitutions leave \<open>t\<close> as it was, \<open>update_imports_in_file\<close> returns \<open>False\<close> and the
  world is as before (nothing is written); when the text differs and the write goes
  through, the file gets the new text, nothing else changes, and the function returns
  \<open>True\<close>. It returns \<open>True\<close> only when the text differed, and \<open>main\<close> prints the file
  as updated exactly when it returned \<open>True\<close>.
\<close>

theorem C7_write_back_iff_changed:
  assumes "map_of (files w) p = Some f" and "\<not> read_fails w p"
    and "t = universal_newlines (file_text f)"
  shows "(update_imports_text t = t \<longrightarrow> update_imports_in_file p w = (False, w)) \<and>
         (update_imports_text t \<noteq> t \<and> p \<notin> set (dirs w) \<and> \<not> write_fails w p \<longrightarrow>
            update_imports_in_file p w =
              (True, w\<lparr>files := AList.update p (f\<lparr>file_text := update_imports_text t\<rparr>)
                                   (files w)\<rparr>)) \<and>
         (fst (update_imports_in_file p w) \<longrightarrow> update_imports_text t \<noteq> t) \<and>
         update_files (p # rest) n w =
           (if fst (update_imports_in_file p w)
            then update_files rest (Suc n) (print (Updated p) (snd (update_imports_in_file p w)))
            else update_files rest n (snd (update_imports_in_file p w)))"
proof -
  have r: "read_text p w = Inr t"
    using assms by (simp add: read_text_def)
  show ?thesis
    using r assms(1)
    by (auto simp: update_imports_in_file_def Let_def write_text_def split: sum.splits prod.splits bool.splits)
qed

subsection \<open>What the relocator leaves alone\<close>

lemma pred_list_ConsI: "P x \<Longrightarrow> list_all P xs \<Longrightarrow> list_all P (x # xs)"
  by simp

lemma pred_list_NilI: "list_all P []"
  by simp

lemma migrations_ok: "list_all migration_ok MIGRATIONS"
  unfolding MIGRATIONS_def
  by (intro pred_list_ConsI pred_list_NilI; simp add: migration_ok_def outside_subtrees_def)

lemma update_package_declaration_frame:
  "q \<noteq> p \<Longrightarrow> map_of (files (snd (update_package_declaration p w))) q = map_of (files w) q"
  by (auto simp: update_package_declaration_def write_text_def update_conv'
      split: sum.splits if_splits)


lemma update_all_frame:
  "q \<notin> set js \<Longrightarrow> map_of (files (snd (update_all js n w))) q = map_of (files w) q"
proof (induction js arbitrary: n w)
  case Nil
  then show ?case by simp
next
  case (Cons j js)
  obtain b w1 where r: "update_package_declaration j w = (b, w1)" by force
  have "map_of (files w1) q = map_of (files w) q"
    using update_package_declaration_frame [of q j w] Cons.prems r by simp
  then show ?case using Cons r by (cases b) auto
qed


lemma java_files_inside: "p \<in> set (java_files_of w) \<Longrightarrow> \<not> outside_subtrees p"
  by (auto simp: java_files_of_def glob_java_under_def outside_subtrees_def)

text \<open>
  C8. The declaration-rewrite phase works on the result of the two globs: a path outside
  \<open>modules/\<close> and \<open>common/\<close> is not among the files it selects, and the file at such a
  path is after the phase what it was before.
\<close>

theorem C8_only_two_subtrees:
  assumes "outside_subtrees p"
  shows "p \<notin> set (java_files_of w) \<and>
     map_of (files (snd (update_all (java_files_of w) n w))) p = map_of (files w) p"
  using assms java_files_inside [of p w] update_all_frame [of p "java_files_of w" n w] by blast

lemma move_file_frame:
  assumes "q \<noteq> dest" "q \<noteq> dest @ [last src]"
  shows "map_of (files (snd (move_file src dest w))) q = map_of (files w) q"
proof (cases "mkdir_parents (butlast dest) w")
  case (Inl e)
  then show ?thesis by (simp add: move_file_def)
next
  case (Inr w1)
  note m = mkdir_parents_Inr [OF Inr]
  show ?thesis
  proof (cases "copy2 src dest w1")
    case (Inl e)
    then show ?thesis using Inr m(1) by (simp add: move_file_def)
  next
    case c: (Inr w2)
    from copy2_Inr [OF c] obtain f where
      "files w2 = AList.update (if dest \<in> set (dirs w1) then dest @ [last src] else dest) f (files w1)"
      by metis
    then have "map_of (files w2) q = map_of (files w) q"
      using assms m(1) by (simp add: update_conv')
    then show ?thesis using Inr c by (simp add: move_file_def)
  qed
qed

lemma move_file_outside:
  assumes "outside_subtrees q" "migration_ok (src, dest)"
  shows "map_of (files (snd (move_file src dest w))) q = map_of (files w) q"
proof (rule move_file_frame)
  show "q \<noteq> dest" using assms by (auto simp: migration_ok_def)
  have "hd (dest @ [last src]) = hd dest" using assms(2) by (simp add: migration_ok_def)
  then show "q \<noteq> dest @ [last src]"
    using assms by (auto simp: migration_ok_def outside_subtrees_def)
qed

lemma move_all_outside:
  assumes "outside_subtrees q" "list_all migration_ok T"
  shows "map_of (files (snd (move_all T m f w))) q = map_of (files w) q"
  using assms(2)
proof (induction T arbitrary: m f w)
  case Nil
  then show ?case by simp
next
  case (Cons e T)
  obtain src dest where e: "e = (src, dest)" by (cases e)
  obtain r w1 where mv: "move_file src dest w = (r, w1)" by force
  have 1: "map_of (files w1) q = map_of (files w) q"
    using move_file_outside [OF assms(1), of src dest w] Cons.prems e mv by simp
  have T: "list_all migration_ok T" using Cons.prems by simp
  show ?case
  proof (cases r)
    case (Inl x)
    then show ?thesis using e mv 1 by simp
  next
    case (Inr b)
    then show ?thesis using e mv 1 Cons.IH [OF T, of _ _ w1] by (cases b) auto
  qed
qed

lemma migrate_main_outside:
  assumes "outside_subtrees q"
  shows "map_of (files (snd (migrate_main w))) q = map_of (files w) q"
proof -
  let ?w0 = "print (Banner ''Moving files...'')
               (print (Banner ''Starting migration to modular structure...'') w)"
  obtain r w1 where mv: "move_all MIGRATIONS 0 0 ?w0 = (r, w1)" by force
  have 1: "map_of (files w1) q = map_of (files w) q"
    using move_all_outside [OF assms migrations_ok, of 0 0 ?w0] mv by simp
  show ?thesis
  proof (cases r)
    case (Inl e)
    then show ?thesis using mv 1 by (simp add: migrate_main_def)
  next
    case (Inr c)
    obtain mc fc where c: "c = (mc, fc)" by (cases c)
    let ?w2 = "print (Banner ''Updating package declarations...'')
                      (print (FailedCount fc) (print (MovedCount mc) w1))"
    obtain u w3 where up: "update_all (java_files_of ?w2) 0 ?w2 = (u, w3)" by force
    have "map_of (files w3) q = map_of (files ?w2) q"
      using update_all_frame [of q "java_files_of ?w2" 0 ?w2] java_files_inside [of q ?w2] assms up
      by auto
    then show ?thesis using mv Inr c up 1 by (simp add: migrate_main_def)
  qed
qed

text \<open>
  C9. The relocator copies: whatever happens during a run, also when it ends with an
  exception, the file at every source path of \<open>MIGRATIONS\<close> is afterwards what it was
  before, so a source that existed still exists, with its text and metadata. The copy
  writes only at destinations, the rewrite phase only below \<open>modules/\<close> and \<open>common/\<close>,
  and no source path of the table lies there.
\<close>

theorem C9_sources_kept:
  assumes "(src, dest) \<in> set MIGRATIONS"
  shows "map_of (files (snd (migrate_main w))) src = map_of (files w) src"
proof -
  have "migration_ok (src, dest)"
    using migrations_ok assms by (auto simp: list_all_iff)
  then have "outside_subtrees src" by (simp add: migration_ok_def)
  then show ?thesis by (rule migrate_main_outside)
qed

subsection \<open>Completion of the two batches\<close>






subsection \<open>Runs on example worlds\<close>


theorem C8_only_two_subtrees_witness:
  "[''entity'', ''User.java''] \<notin> set (java_files_of one_source_world) \<and>
   map_of (files (snd (update_all (java_files_of one_source_world) 0 one_source_world)))
     [''entity'', ''User.java''] = Some user_java"
proof -
  have "outside_subtrees [''entity'', ''User.java'']" by (simp add: outside_subtrees_def)
  from C8_only_two_subtrees [OF this, of one_source_world 0] show ?thesis
    by (simp add: one_source_world_def plain_world_def)
qed

lemma first_migration:
  "([''entity'', ''User.java''], [''modules'', ''user'', ''entity'', ''User.java'']) \<in> set MIGRATIONS"
  unfolding MIGRATIONS_def by simp

theorem C9_sources_kept_witness:
  "map_of (files (snd (migrate_main one_source_world))) [''entity'', ''User.java''] = Some user_java"
  using C9_sources_kept [OF first_migration, of one_source_world]
  by (simp add: one_source_world_def plain_world_def)



subsection \<open>The package declaration\<close>



lemma not_semicolon_simps [simp]: "\<not> not_semicolon semicolon" "not_semicolon c \<longleftrightarrow> c \<noteq> semicolon"
  by (simp_all add: not_semicolon_def)

lemma match_seq_declaration:
  assumes w: "w \<noteq> []" "list_all is_space w" and P: "P \<noteq> []" "\<not> is_space (hd P)"
    and nm: "nm \<noteq> []" "semicolon \<notin> set nm"
  shows "match_seq [Lit K, Plus is_space, Lit P, Plus not_semicolon, Lit [semicolon]]
       (K @ w @ P @ nm @ semicolon # rest) =
     Some (length K + length w + length P + length nm + 1)"
proof -
  have tw: "takeWhile is_space (w @ P @ nm @ semicolon # rest) = w"
    by (rule takeWhile_all_then) (use w P in auto)
  have tn: "takeWhile not_semicolon (nm @ semicolon # rest) = nm"
    by (rule takeWhile_all_then) (use nm in \<open>auto simp: list_all_iff\<close>)
  have 3: "match_seq [Lit [semicolon]] (semicolon # rest) = Some 1"
    by simp
  have sc: "[semicolon] \<noteq> []" "\<not> not_semicolon (hd [semicolon])" by simp_all
  have ln: "length nm \<noteq> 0" using nm(1) by simp
  have 2: "match_seq (Plus not_semicolon # Lit [semicolon] # []) (nm @ semicolon # rest) =
      Some (length nm + 1)"
    unfolding match_seq_plus [of "[semicolon]" not_semicolon "[]", OF sc] tn Let_def
    using ln 3 by simp
  have 1: "match_seq (Lit P # Plus not_semicolon # Lit [semicolon] # []) (P @ nm @ semicolon # rest) =
      Some (length P + (length nm + 1))"
    using 2 by simp
  have lw: "length w \<noteq> 0" using w(1) by simp
  have 0: "match_seq (Plus is_space # Lit P # Plus not_semicolon # Lit [semicolon] # [])
      (w @ P @ nm @ semicolon # rest) = Some (length w + (length P + (length nm + 1)))"
    unfolding match_seq_plus [of P is_space, OF P] tw Let_def
    using lw 1 by simp
  show ?thesis using 0 by simp
qed

lemma package_pattern_unfold:
  "package_pattern =
     [Lit ''package'', Plus is_space, Lit ''com.demo.auth.'', Plus not_semicolon, Lit [semicolon]]"
  by (simp add: package_pattern_def semicolon_def)

lemma match_package_declaration:
  assumes "w \<noteq> []" "list_all is_space w" "nm \<noteq> []" "semicolon \<notin> set nm"
  shows "match_seq package_pattern (''package'' @ w @ ''com.demo.auth.'' @ nm @ '';'' @ rest) =
     Some (length (''package'' @ w @ ''com.demo.auth.'' @ nm @ '';''))"
proof -
  have sp: "\<not> is_space (hd ''com.demo.auth.'')"
    by (simp add: is_space_def whitespace_def)
  have s: "'';'' @ rest = semicolon # rest" by (simp add: semicolon_def)
  show ?thesis
    unfolding package_pattern_unfold s
    using match_seq_declaration [OF assms(1,2) _ sp assms(3,4), of "''package''" rest]
    by simp
qed

lemma re_sub_match:
  assumes "match_at a p b s = Some n" "0 < n" "s \<noteq> []"
  shows "re_sub a p r b s = r @ re_sub a p r (s ! (n - 1) = newline) (drop n s)"
  using assms by (cases s) (simp_all del: drop_Suc_Cons)

lemma re_sub_match_prefix:
  assumes "match_at a p b (d @ rest) = Some (length d)" "d \<noteq> []" "last d \<noteq> newline"
  shows "re_sub a p r b (d @ rest) = r @ re_sub a p r False rest"
proof -
  have "(d @ rest) ! (length d - 1) = last d"
    using assms(2) by (simp add: nth_append last_conv_nth)
  then show ?thesis
    using re_sub_match [OF assms(1), of r] assms(2,3) by simp
qed

lemma re_sub_package_declaration:
  assumes "w \<noteq> []" "list_all is_space w" "nm \<noteq> []" "semicolon \<notin> set nm"
  shows "re_sub True package_pattern r True
       (''package'' @ w @ ''com.demo.auth.'' @ nm @ '';'' @ rest) =
     r @ re_sub True package_pattern r False rest"
proof -
  define d where "d = ''package'' @ w @ ''com.demo.auth.'' @ nm @ '';''"
  have e: "''package'' @ w @ ''com.demo.auth.'' @ nm @ '';'' @ rest = d @ rest"
    by (simp add: d_def)
  have m: "match_at True package_pattern True (d @ rest) = Some (length d)"
    using match_package_declaration [OF assms, of rest] unfolding e
    by (simp add: match_at_def d_def)
  have "d \<noteq> []" "last d \<noteq> newline" by (simp_all add: d_def newline_def)
  from re_sub_match_prefix [OF m this] show ?thesis unfolding e .
qed

lemma match_package_Nil [simp]: "match_at a package_pattern b [] = None"
  by (simp add: match_at_def package_pattern_def)

subsection \<open>Rewriting the declaration\<close>


lemma re_sub_package_Nil [simp]: "re_sub a package_pattern r b [] = []"
  by simp








text \<open>
  C6. The package written for the file at the path \<open>p\<close> below the base is
  \<open>com.demo.auth.\<close> followed by the components of the directory of \<open>p\<close>, joined with dots.
  For a path whose directory names have no backslash, a declaration statement at the
  start of the text is replaced with \<open>package\<close>, one space, that package and a semicolon,
  and \<open>update_package_declaration\<close> writes the rewritten text, which it computes from
  the text as read, to the file and prints the package.
\<close>

theorem C6_package_from_directory:
  assumes "backslash \<notin> set (new_package_of p)"
    and "w \<noteq> []" and "list_all is_space w" and "nm \<noteq> []" and "semicolon \<notin> set nm"
  shows "new_package_of p = ''com.demo.auth.'' @ join_dots (butlast p) \<and>
     update_package_text p (''package'' @ w @ ''com.demo.auth.'' @ nm @ '';'' @ rest) =
       ''package com.demo.auth.'' @ join_dots (butlast p) @ '';'' @
         re_sub True package_pattern (''package com.demo.auth.'' @ join_dots (butlast p) @ '';'') False rest \<and>
     (map_of (files wd) p = Some f \<and> \<not> read_fails wd p \<and> \<not> write_fails wd p \<and> p \<notin> set (dirs wd) \<longrightarrow>
        update_package_declaration p wd =
          (True, print (UpdatedPackage (''com.demo.auth.'' @ join_dots (butlast p)))
                   (wd\<lparr>files := AList.update p (f\<lparr>file_text := update_package_text p (universal_newlines (file_text f))\<rparr>)
                                     (files wd)\<rparr>)))"
proof (intro conjI impI)
  show "new_package_of p = ''com.demo.auth.'' @ join_dots (butlast p)"
    by (simp add: new_package_of_def)
  show "update_package_text p (''package'' @ w @ ''com.demo.auth.'' @ nm @ '';'' @ rest) =
       ''package com.demo.auth.'' @ join_dots (butlast p) @ '';'' @
         re_sub True package_pattern (''package com.demo.auth.'' @ join_dots (butlast p) @ '';'') False rest"
    unfolding update_package_text_def re_sub_package_declaration [OF assms(2-5)]
    by (simp add: new_package_of_def)
  assume "map_of (files wd) p = Some f \<and> \<not> read_fails wd p \<and> \<not> write_fails wd p \<and> p \<notin> set (dirs wd)"
  then show "update_package_declaration p wd =
          (True, print (UpdatedPackage (''com.demo.auth.'' @ join_dots (butlast p)))
                   (wd\<lparr>files := AList.update p (f\<lparr>file_text := update_package_text p (universal_newlines (file_text f))\<rparr>)
                                     (files wd)\<rparr>))"
    by (simp add: update_package_declaration_def path_exists_def read_text_def write_text_def
        new_package_of_def)
qed

theorem C6_package_from_directory_witness:
  "new_package_of [''x'', ''y'', ''Old.java''] = ''com.demo.auth.x.y'' \<and>
   update_package_text [''x'', ''y'', ''Old.java''] ''package com.demo.auth.a.b;'' =
     ''package com.demo.auth.x.y;''"
proof -
  let ?p = "[''x'', ''y'', ''Old.java'']"
  have bs: "backslash \<notin> set (new_package_of ?p)"
    by (simp add: new_package_of_def backslash_def)
  have v: "'' '' \<noteq> []" "list_all is_space '' ''" "''a.b'' \<noteq> []" "semicolon \<notin> set ''a.b''"
    by (simp_all add: is_space_def whitespace_def semicolon_def)
  from C6_package_from_directory [OF bs v, of "[]" "plain_world [] []" user_java]
  show ?thesis by simp
qed

subsection \<open>The import rewriter\<close>

text \<open>
  C3. The import rewriter is idempotent: the text transformation of
  \<open>update_imports_in_file\<close> (all exact and wildcard substitutions, over all entries of
  \<open>IMPORT_MAPPINGS\<close>), applied to its own output, gives that output again. It holds for
  every text.
\<close>

theorem C3_rewriter_idempotent:
  "update_imports_text (update_imports_text content) = update_imports_text content"
proof -
  have "then_map (map_of name_table) (map_of name_table) = map_of name_table"
    by (rule ext) (auto simp: then_map_def map_of_name_table_fresh split: option.splits)
  then show ?thesis
    unfolding update_imports_text_rewrite
    using rewrite_text_comp [of "''import''" "map_of name_table" "map_of name_table" content]
      map_of_name_table_valid
    by simp
qed

theorem C3_rewriter_idempotent_witness:
  "update_imports_text (update_imports_text ''import com.demo.auth.entity.User;'') =
     update_imports_text ''import com.demo.auth.entity.User;''"
  by (rule C3_rewriter_idempotent)

text \<open>
  C1, as the code has it. For every entry \<open>(old, new)\<close> of \<open>IMPORT_MAPPINGS\<close> and every text:
  an import statement of \<open>old\<close> (the word \<open>import\<close>, white space, the name, a semicolon)
  is replaced by \<open>import new;\<close>; a wildcard import of the package of \<open>old\<close> is replaced by
  the wildcard import of the new package of the first entry of the table that has this old
  package; the text before and behind the statement is rewritten on its own; and after
  the run neither pattern of the entry matches anywhere in the text.
\<close>

theorem C1_old_imports_replaced:
  assumes "(old, new) \<in> set IMPORT_MAPPINGS"
    and "w \<noteq> []" and "list_all is_space w"
    and "first_with_package (rsplit_dot_head old) = Some first"
  shows "update_imports_text (a @ ''import'' @ w @ old @ '';'' @ b) =
       update_imports_text a @ ''import '' @ new @ '';'' @ update_imports_text b \<and>
     update_imports_text (a @ ''import'' @ w @ rsplit_dot_head old @ ''.*;'' @ b) =
       update_imports_text a @ ''import '' @ rsplit_dot_head (snd first) @ ''.*;'' @
         update_imports_text b \<and>
     match_seq (import_pattern old) (drop k (update_imports_text content)) = None \<and>
     match_seq (wildcard_pattern (rsplit_dot_head old)) (drop k (update_imports_text content)) = None"
proof -
  have ex: "map_of name_table old = Some new"
    by (rule lookup_exact [OF assms(1)])
  have wi: "map_of name_table (rsplit_dot_head old @ ''.*'') = Some (rsplit_dot_head (snd first) @ ''.*'')"
    by (rule lookup_wildcard [OF assms(4)])
  have "good_entry (old, new)"
    using good_table assms(1) by (auto simp: list_all_iff)
  then have ne: "old \<noteq> []" "rsplit_dot_head old \<noteq> []"
    by (auto simp: good_entry_def valid_name_def)
  have 1: "update_imports_text (a @ ''import'' @ w @ old @ '';'' @ b) =
       update_imports_text a @ ''import '' @ new @ '';'' @ update_imports_text b"
    by (rule update_imports_text_stmt [OF assms(2,3) ex])
  have 2: "update_imports_text (a @ ''import'' @ w @ rsplit_dot_head old @ ''.*;'' @ b) =
       update_imports_text a @ ''import '' @ rsplit_dot_head (snd first) @ ''.*;'' @
         update_imports_text b"
    using update_imports_text_stmt [OF assms(2,3) wi, of a b] by simp
  have 3: "match_seq (import_pattern old) (drop k (update_imports_text content)) = None"
    unfolding import_pattern_stmt using no_old_statement_left [OF ne(1), of "[]" new] ex by simp
  have 4: "match_seq (wildcard_pattern (rsplit_dot_head old))
      (drop k (update_imports_text content)) = None"
    unfolding wildcard_pattern_stmt by (rule no_old_statement_left [OF ne(2) wi])
  from 1 2 3 4 show ?thesis by blast
qed

theorem C1_old_imports_replaced_witness:
  "update_imports_text ''import   com.demo.auth.entity.Role;'' =
     ''import com.demo.auth.modules.role.entity.Role;'' \<and>
   update_imports_text ''import com.demo.auth.entity.*;'' =
     ''import com.demo.auth.modules.user.entity.*;'' \<and>
   match_seq (import_pattern ''com.demo.auth.entity.Role'')
     (drop 0 (update_imports_text ''import com.demo.auth.entity.Role;'')) = None"
proof -
  have sp: "''   '' \<noteq> []" "list_all is_space ''   ''" "'' '' \<noteq> []" "list_all is_space '' ''"
    by simp_all
  have f: "first_with_package (rsplit_dot_head ''com.demo.auth.entity.Role'') =
      Some (''com.demo.auth.entity.User'', ''com.demo.auth.modules.user.entity.User'')"
    by (simp only: rsplit_role_entity first_with_package_entity)
  from C1_old_imports_replaced [OF role_entry sp(1,2) f, of "[]" "[]" 0 "[]"]
  have 1: "update_imports_text ''import   com.demo.auth.entity.Role;'' =
     ''import com.demo.auth.modules.role.entity.Role;''"
    by simp
  note r = C1_old_imports_replaced [OF role_entry sp(3,4) f, of "[]" "[]" 0
      "''import com.demo.auth.entity.Role;''"]
  from r have 2: "update_imports_text ''import com.demo.auth.entity.*;'' =
     ''import com.demo.auth.modules.user.entity.*;''"
    by (simp add: rsplit_role_entity rsplit_user_entity)
  from r have 3: "match_seq (import_pattern ''com.demo.auth.entity.Role'')
     (drop 0 (update_imports_text ''import com.demo.auth.entity.Role;'')) = None"
    by blast
  from 1 2 3 show ?thesis by blast
qed

text \<open>
  C1 as stated fails: for the entry of \<open>Role\<close> the wildcard import of its old package
  \<open>com.demo.auth.entity\<close> does not become the wildcard import of its new package
  \<open>com.demo.auth.modules.role.entity\<close>, but that of the \<open>User\<close> entry.
\<close>

theorem C1_counterexample:
  "(''com.demo.auth.entity.Role'', ''com.demo.auth.modules.role.entity.Role'') \<in> set IMPORT_MAPPINGS \<and>
   rsplit_dot_head ''com.demo.auth.entity.Role'' = ''com.demo.auth.entity'' \<and>
   rsplit_dot_head ''com.demo.auth.modules.role.entity.Role'' = ''com.demo.auth.modules.role.entity'' \<and>
   update_imports_text ''import com.demo.auth.entity.*;'' \<noteq>
     ''import com.demo.auth.modules.role.entity.*;''"
proof -
  have "rsplit_dot_head ''com.demo.auth.modules.role.entity.Role'' = ''com.demo.auth.modules.role.entity''"
    by (simp add: rsplit_dot_head_def)
  then show ?thesis
    using role_entry rsplit_role_entity wildcard_entity_rewritten by simp
qed

text \<open>
  C10. Entries that share an old package: a wildcard import of the package \<open>p\<close> is rewritten
  to the wildcard import of the new package of the first entry of the table, in table
  order, whose old package is \<open>p\<close>; the later entries of that package leave it as the
  first one wrote it.
\<close>

theorem C10_wildcard_first_entry:
  assumes "first_with_package p = Some (old, new)"
    and "w \<noteq> []" and "list_all is_space w"
  shows "update_imports_text (a @ ''import'' @ w @ p @ ''.*;'' @ b) =
     update_imports_text a @ ''import '' @ rsplit_dot_head new @ ''.*;'' @ update_imports_text b"
  using update_imports_text_stmt [OF assms(2,3) lookup_wildcard [OF assms(1)], of a b] by simp

theorem C10_wildcard_first_entry_witness:
  "first_with_package ''com.demo.auth.entity'' =
     Some (''com.demo.auth.entity.User'', ''com.demo.auth.modules.user.entity.User'') \<and>
   update_imports_text ''import com.demo.auth.entity.*;'' =
     ''import com.demo.auth.modules.user.entity.*;''"
  using C10_wildcard_first_entry [OF first_with_package_entity, of "'' ''" "[]" "[]"]
    first_with_package_entity
  by (simp add: rsplit_user_entity)

lemma update_imports_text_no_semicolon:
  "semicolon \<notin> set s \<Longrightarrow> update_imports_text s = s"
  by (simp add: update_imports_text_rewrite rewrite_text_no_semicolon)

lemma user_entry:
  "(''com.demo.auth.entity.User'', ''com.demo.auth.modules.user.entity.User'') \<in> set IMPORT_MAPPINGS"
  unfolding IMPORT_MAPPINGS_def by simp

lemma user_import_rewritten:
  "update_imports_text ''import com.demo.auth.entity.User;'' =
     ''import com.demo.auth.modules.user.entity.User;''"
  using update_imports_text_stmt [of "'' ''" "''com.demo.auth.entity.User''"
      "''com.demo.auth.modules.user.entity.User''" "[]" "[]"] lookup_exact [OF user_entry]
  by simp

theorem C7_write_back_iff_changed_witness:
  "update_imports_in_file [''B.java'']
      (plain_world [([''B.java''], \<lparr>file_text = ''class B {}'', file_meta = 0\<rparr>)] []) =
     (False, plain_world [([''B.java''], \<lparr>file_text = ''class B {}'', file_meta = 0\<rparr>)] []) \<and>
   fst (update_imports_in_file [''A.java'']
      (plain_world [([''A.java''], \<lparr>file_text = ''import com.demo.auth.entity.User;'', file_meta = 0\<rparr>)] [])) \<and>
   map_of (files (snd (update_imports_in_file [''A.java'']
      (plain_world [([''A.java''], \<lparr>file_text = ''import com.demo.auth.entity.User;'', file_meta = 0\<rparr>)] []))))
     [''A.java''] =
     Some \<lparr>file_text = ''import com.demo.auth.modules.user.entity.User;'', file_meta = 0\<rparr>"
proof -
  let ?fb = "\<lparr>file_text = ''class B {}'', file_meta = 0\<rparr>"
  let ?fa = "\<lparr>file_text = ''import com.demo.auth.entity.User;'', file_meta = 0\<rparr>"
  let ?wb = "plain_world [([''B.java''], ?fb)] []"
  let ?wa = "plain_world [([''A.java''], ?fa)] []"
  have ub: "update_imports_text (file_text ?fb) = file_text ?fb"
    by (rule update_imports_text_no_semicolon) (simp add: semicolon_def)
  have hb: "map_of (files ?wb) [''B.java''] = Some ?fb" "\<not> read_fails ?wb [''B.java'']"
    by (simp_all add: plain_world_def)
  have tb: "file_text ?fb = universal_newlines (file_text ?fb)"
    by (simp add: carriage_return_def)
  from C7_write_back_iff_changed [OF hb tb, of "[]" 0] ub
  have 1: "update_imports_in_file [''B.java''] ?wb = (False, ?wb)" by blast
  have ua: "update_imports_text (file_text ?fa) = ''import com.demo.auth.modules.user.entity.User;''"
    using user_import_rewritten by simp
  have ha: "map_of (files ?wa) [''A.java''] = Some ?fa" "\<not> read_fails ?wa [''A.java'']"
    "[''A.java''] \<notin> set (dirs ?wa)" "\<not> write_fails ?wa [''A.java'']"
    by (simp_all add: plain_world_def)
  have "update_imports_text (file_text ?fa) \<noteq> file_text ?fa" unfolding ua by simp
  moreover have ta: "file_text ?fa = universal_newlines (file_text ?fa)"
    by (simp add: carriage_return_def)
  ultimately have "update_imports_text (file_text ?fa) \<noteq> file_text ?fa \<and>
      file_text ?fa = universal_newlines (file_text ?fa)" by blast
  with C7_write_back_iff_changed [OF ha(1,2), of "file_text ?fa" "[]" 0] ha(3,4)
  have "update_imports_in_file [''A.java''] ?wa =
      (True, ?wa\<lparr>files := AList.update [''A.java''] (?fa\<lparr>file_text := update_imports_text (file_text ?fa)\<rparr>)
                                   (files ?wa)\<rparr>)"
    by blast
  then have 2: "fst (update_imports_in_file [''A.java''] ?wa)"
    and 3: "map_of (files (snd (update_imports_in_file [''A.java''] ?wa))) [''A.java''] =
     Some \<lparr>file_text = ''import com.demo.auth.modules.user.entity.User;'', file_meta = 0\<rparr>"
    unfolding ua by (simp_all add: plain_world_def)
  from 1 2 3 show ?thesis by blast
qed

end
